theory Spec2Isabelle
  imports Main "HOL-Library.Word"
begin

section \<open>QRAFT: a shallow embedding of the sender and the receiver\<close>

text \<open>
  The development embeds the TypeScript sources of the QR air-gap file transfer:
  \<^verbatim>\<open>config.ts\<close>, \<^verbatim>\<open>utils.ts\<close>, \<^verbatim>\<open>state.ts\<close>, \<^verbatim>\<open>sender.ts\<close>, \<^verbatim>\<open>receiver.ts\<close> and the click
  handlers of \<^verbatim>\<open>main.ts\<close>. Module-level variables become fields of a record that every
  operation takes and returns. JavaScript numbers that the code uses as counters, sizes,
  indices and sequence numbers are integers (\<open>int\<close>, or \<open>nat\<close> for lengths and list
  positions); a number read from a packet is an \<open>int\<close>, so \<^verbatim>\<open>Number.isInteger\<close> holds of
  it. Strings are lists of 8-bit characters. Timers and promises are pending callbacks
  stored in the state and run by an explicit event. Of the page only the parts the
  operations read (inputs) and the status lines, the missing-chunk box and the displayed
  QR payload (outputs) are kept: widgets that only restyle the page, the progress bar and
  the transfer-rate estimate (which reads the clock) are left out.
\<close>

subsection \<open>JavaScript primitives\<close>

type_synonym byte = "8 word"

text \<open>\<^verbatim>\<open>Number.prototype.toString(radix)\<close> on a non-negative integer, radix 10 or 16.\<close>

definition digitChar :: "nat \<Rightarrow> char" where
  "digitChar d = (''0123456789abcdef'' ! d)"

fun toStringRadix :: "nat \<Rightarrow> nat \<Rightarrow> string" where
  "toStringRadix radix n =
     (if radix < 2 \<or> n < radix then [digitChar n]
      else toStringRadix radix (n div radix) @ [digitChar (n mod radix)])"

text \<open>Template-literal rendering \<^verbatim>\<open>`${n}`\<close> of an integer.\<close>

definition showInt :: "int \<Rightarrow> string" where
  "showInt i = (if i < 0 then CHR ''-'' # toStringRadix 10 (nat (- i)) else toStringRadix 10 (nat i))"

definition showNat :: "nat \<Rightarrow> string" where
  "showNat n = toStringRadix 10 n"

text \<open>\<^verbatim>\<open>String.prototype.padStart(targetLength, padChar)\<close> with a one-character pad.\<close>

definition padStart :: "nat \<Rightarrow> char \<Rightarrow> string \<Rightarrow> string" where
  "padStart targetLength c s = replicate (targetLength - length s) c @ s"

text \<open>\<^verbatim>\<open>String.prototype.substring(a, b)\<close>: both ends clamped to the length, swapped when
  out of order.\<close>

definition substring :: "string \<Rightarrow> nat \<Rightarrow> nat \<Rightarrow> string" where
  "substring s a b =
     (let a' = min a (length s); b' = min b (length s);
          lo = min a' b'; hi = max a' b'
      in take (hi - lo) (drop lo s))"

text \<open>\<^verbatim>\<open>Array.prototype.join(sep)\<close> on strings.\<close>

fun joinStr :: "string \<Rightarrow> string list \<Rightarrow> string" where
  "joinStr sep [] = []"
| "joinStr sep [x] = x"
| "joinStr sep (x # y # ys) = x @ sep @ joinStr sep (y # ys)"

text \<open>\<^verbatim>\<open>String.prototype.split(sep)\<close> with a one-character separator: the pieces between
  the separators, one piece for a string without any.\<close>

fun splitOn :: "char \<Rightarrow> string \<Rightarrow> string list" where
  "splitOn sep [] = [[]]"
| "splitOn sep (c # cs) =
     (if c = sep then [] # splitOn sep cs
      else (case splitOn sep cs of
              [] \<Rightarrow> [[c]]
            | p # ps \<Rightarrow> (c # p) # ps))"

text \<open>\<^verbatim>\<open>String.prototype.trim()\<close>: white space of the 8-bit range, stripped at both ends.\<close>

definition isJsSpace :: "char \<Rightarrow> bool" where
  "isJsSpace c = (of_char c \<in> {9, 10, 11, 12, 13, 32, 160 :: nat})"

definition trim :: "string \<Rightarrow> string" where
  "trim s = rev (dropWhile isJsSpace (rev (dropWhile isJsSpace s)))"

text \<open>The test \<^verbatim>\<open>/^\d+$/\<close> and \<^verbatim>\<open>parseInt(s, 10)\<close> on a string that passes it.\<close>

definition isDigit :: "char \<Rightarrow> bool" where
  "isDigit c = (48 \<le> (of_char c :: nat) \<and> (of_char c :: nat) \<le> 57)"

definition allDigits :: "string \<Rightarrow> bool" where
  "allDigits s = (s \<noteq> [] \<and> list_all isDigit s)"

definition parseInt :: "string \<Rightarrow> int" where
  "parseInt s = foldl (\<lambda>acc c. 10 * acc + (int (of_char c) - 48)) 0 s"

text \<open>
  A JavaScript \<^verbatim>\<open>Map\<close>: the entries in insertion order, one per key. \<^verbatim>\<open>set\<close> on a
  present key replaces the value in place, on a new key appends an entry.
\<close>

type_synonym ('k, 'v) jsMap = "('k \<times> 'v) list"

definition mapHas :: "('k, 'v) jsMap \<Rightarrow> 'k \<Rightarrow> bool" where
  "mapHas m k = (k \<in> set (map fst m))"

definition mapGet :: "('k, 'v) jsMap \<Rightarrow> 'k \<Rightarrow> 'v option" where
  "mapGet m k = map_of m k"

fun mapSet :: "('k, 'v) jsMap \<Rightarrow> 'k \<Rightarrow> 'v \<Rightarrow> ('k, 'v) jsMap" where
  "mapSet [] k v = [(k, v)]"
| "mapSet ((k', v') # m) k v = (if k' = k then (k, v) # m else (k', v') # mapSet m k v)"

definition mapSize :: "('k, 'v) jsMap \<Rightarrow> nat" where
  "mapSize m = length m"

text \<open>A JavaScript \<^verbatim>\<open>Set\<close>: the members in insertion order.\<close>

definition setAdd :: "'a \<Rightarrow> 'a list \<Rightarrow> 'a list" where
  "setAdd x xs = (if x \<in> set xs then xs else xs @ [x])"

text \<open>\<^verbatim>\<open>JSON.stringify\<close> of a string: quoted, with the two-character escapes and
  \<^verbatim>\<open>\u00XX\<close> for the other control characters.\<close>

definition jsonEscapeChar :: "char \<Rightarrow> string" where
  "jsonEscapeChar c =
     (let n = (of_char c :: nat) in
      if n = 34 then [CHR 0x5C, CHR 0x22]
      else if n = 92 then [CHR 0x5C, CHR 0x5C]
      else if n = 8 then [CHR 0x5C, CHR ''b'']
      else if n = 12 then [CHR 0x5C, CHR ''f'']
      else if n = 10 then [CHR 0x5C, CHR ''n'']
      else if n = 13 then [CHR 0x5C, CHR ''r'']
      else if n = 9 then [CHR 0x5C, CHR ''t'']
      else if n < 32 then [CHR 0x5C, CHR ''u''] @ padStart 4 CHR ''0'' (toStringRadix 16 n)
      else [c])"

definition jsonString :: "string \<Rightarrow> string" where
  "jsonString s = [CHR 0x22] @ concat (map jsonEscapeChar s) @ [CHR 0x22]"

subsection \<open>config.ts\<close>

definition PROTOCOL_VERSION :: int where
  "PROTOCOL_VERSION = 1"

definition MULTI_FILE_ARCHIVE_NAME :: string where
  "MULTI_FILE_ARCHIVE_NAME = ''transfer_archive.zip''"

text \<open>\<^verbatim>\<open>QR_CAPACITY_ESTIMATES\<close>: a lookup by the level's letter, \<^verbatim>\<open>undefined\<close> for any other
  key.\<close>

definition QR_CAPACITY_ESTIMATES :: "string \<Rightarrow> int option" where
  "QR_CAPACITY_ESTIMATES level =
     (if level = ''L'' then Some 2000
      else if level = ''M'' then Some 1500
      else if level = ''Q'' then Some 1100
      else if level = ''H'' then Some 800
      else None)"



subsection \<open>utils.ts\<close>

text \<open>\<^verbatim>\<open>calculateChecksum\<close>: the loop over the bytes, then \<^verbatim>\<open>toString(16).padStart(4, "0")\<close>.\<close>

definition checksumLoop :: "byte list \<Rightarrow> nat \<Rightarrow> nat" where
  "checksumLoop bytes sum0 = fold (\<lambda>b sum. (sum + unat b) mod 65536) bytes sum0"

definition calculateChecksum :: "byte list \<Rightarrow> string" where
  "calculateChecksum buffer = padStart 4 CHR ''0'' (toStringRadix 16 (checksumLoop buffer 0))"

text \<open>The checksum as the specification words it: four lowercase hexadecimal digits of
  the byte sum modulo 65536, most significant first.\<close>

definition hex4 :: "nat \<Rightarrow> string" where
  "hex4 n = [digitChar (n div 4096 mod 16), digitChar (n div 256 mod 16),
             digitChar (n div 16 mod 16), digitChar (n mod 16)]"

definition isLowerHex :: "char \<Rightarrow> bool" where
  "isLowerHex c = (c \<in> set ''0123456789abcdef'')"

text \<open>\<^verbatim>\<open>parseChunkInput\<close>: the loop over the comma-separated parts; \<^verbatim>\<open>None\<close> is the
  \<^verbatim>\<open>null\<close> of an invalid input.\<close>

fun parseParts :: "string list \<Rightarrow> int \<Rightarrow> int list \<Rightarrow> int list option" where
  "parseParts [] maxChunk uniqueChunks = Some uniqueChunks"
| "parseParts (part # parts) maxChunk uniqueChunks =
     (let trimmedPart = trim part in
      if trimmedPart = [] then parseParts parts maxChunk uniqueChunks
      else if CHR ''-'' \<in> set trimmedPart then
        (let rangeParts = splitOn CHR ''-'' trimmedPart in
         if length rangeParts \<noteq> 2 then None
         else
           (let startStr = trim (rangeParts ! 0); endStr = trim (rangeParts ! 1) in
            if \<not> (allDigits startStr \<and> allDigits endStr) then None
            else
              (let start = parseInt startStr; end' = parseInt endStr in
               if start \<le> 0 \<or> end' < start \<or> start > maxChunk \<or> end' > maxChunk then None
               else parseParts parts maxChunk (fold setAdd [start..end'] uniqueChunks))))
      else if \<not> allDigits trimmedPart then None
      else
        (let num = parseInt trimmedPart in
         if num \<le> 0 \<or> num > maxChunk then None
         else parseParts parts maxChunk (setAdd num uniqueChunks)))"

definition parseChunkInput :: "string \<Rightarrow> int \<Rightarrow> int list option" where
  "parseChunkInput input maxChunk =
     (if input = [] \<or> trim input = [] then Some []
      else if maxChunk \<le> 0 then None
      else (case parseParts (splitOn CHR '','' input) maxChunk [] of
              None \<Rightarrow> None
            | Some uniqueChunks \<Rightarrow> Some (sort uniqueChunks)))"

text \<open>\<^verbatim>\<open>getQrCapacityEstimate\<close>: the table's entry, the entry of \<^verbatim>\<open>"M"\<close> for an unknown level.\<close>

definition getQrCapacityEstimate :: "string \<Rightarrow> int" where
  "getQrCapacityEstimate level =
     (case QR_CAPACITY_ESTIMATES level of Some c \<Rightarrow> c | None \<Rightarrow> 1500)"


text \<open>\<^verbatim>\<open>formatMissingChunks\<close> (receiver.ts): sort, then one pass that extends the current
  range or closes it and opens the next.\<close>

definition rangeText :: "int \<Rightarrow> int \<Rightarrow> string" where
  "rangeText rangeStart rangeEnd =
     (if rangeStart = rangeEnd then showInt rangeStart
      else showInt rangeStart @ ''-'' @ showInt rangeEnd)"

fun formatLoop :: "int list \<Rightarrow> int \<Rightarrow> int \<Rightarrow> string list \<Rightarrow> string list" where
  "formatLoop [] rangeStart rangeEnd ranges = ranges @ [rangeText rangeStart rangeEnd]"
| "formatLoop (m # ms) rangeStart rangeEnd ranges =
     (if m = rangeEnd + 1 then formatLoop ms rangeStart m ranges
      else formatLoop ms m m (ranges @ [rangeText rangeStart rangeEnd]))"

definition formatMissingChunks :: "int list \<Rightarrow> string" where
  "formatMissingChunks missing =
     (case sort missing of
        [] \<Rightarrow> ''None''
      | m0 # rest \<Rightarrow> joinStr '', '' (formatLoop rest m0 m0 []))"

text \<open>The same pass with the ranges kept as pairs of bounds, before they are rendered.\<close>

fun rangeLoop :: "int list \<Rightarrow> int \<Rightarrow> int \<Rightarrow> (int \<times> int) list \<Rightarrow> (int \<times> int) list" where
  "rangeLoop [] rangeStart rangeEnd ranges = ranges @ [(rangeStart, rangeEnd)]"
| "rangeLoop (m # ms) rangeStart rangeEnd ranges =
     (if m = rangeEnd + 1 then rangeLoop ms rangeStart m ranges
      else rangeLoop ms m m (ranges @ [(rangeStart, rangeEnd)]))"

definition missingRanges :: "int list \<Rightarrow> (int \<times> int) list" where
  "missingRanges missing =
     (case sort missing of [] \<Rightarrow> [] | m0 # rest \<Rightarrow> rangeLoop rest m0 m0 [])"

text \<open>Ranges in ascending order with a gap between neighbours: the next range starts at
  least two after the previous one ends.\<close>

fun separated :: "(int \<times> int) list \<Rightarrow> bool" where
  "separated [] = True"
| "separated [r] = (fst r \<le> snd r)"
| "separated (r # r' # rs) = (fst r \<le> snd r \<and> snd r + 1 < fst r' \<and> separated (r' # rs))"

subsection \<open>Packets as the scanner delivers them\<close>

text \<open>
  A scanned string goes through \<^verbatim>\<open>JSON.parse\<close>; the result is any JSON value. The fields
  the code reads are kept with their JSON type, so that each \<^verbatim>\<open>typeof\<close> test of the source
  is a test of the model; field \<^verbatim>\<open>x\<close> of the payload is \<open>p_x\<close> here. \<open>JObject\<close> stands for a
  field holding a plain object, \<open>JArray\<close> for an array with its elements. \<open>JNumber n\<close> is
  an integer-valued number; the model follows JavaScript for the integers that a double
  holds exactly, \<open>\<bar>n\<bar> < 2 ^ 53\<close>: numbers with a fraction are not modelled, and from
  \<open>10 ^ 21\<close> on JavaScript prints the exponent form where the model prints all digits.
\<close>

datatype jsonValue =
  JUndefined | JNull | JBool bool | JNumber int | JString string | JObject
  | JArray "jsonValue list"

record qrPayload =
  p_v :: jsonValue
  p_fid :: jsonValue
  p_typ :: jsonValue
  p_nam :: jsonValue
  p_siz :: jsonValue
  p_tot :: jsonValue
  p_zip :: jsonValue
  p_ofn :: jsonValue
  p_seq :: jsonValue
  p_dat :: jsonValue
  p_chk :: jsonValue

text \<open>What \<^verbatim>\<open>JSON.parse\<close> made of the scanned text: an exception, a value that is not an
  object (or is \<^verbatim>\<open>null\<close>), or an object with its fields.\<close>

datatype scan = ParseError | NotAnObject | Payload qrPayload

text \<open>JavaScript truthiness and \<^verbatim>\<open>String(x)\<close> of a field. An array renders as its
  elements joined by commas, \<^verbatim>\<open>null\<close> and \<^verbatim>\<open>undefined\<close> elements as the empty string.\<close>

fun truthy :: "jsonValue \<Rightarrow> bool" where
  "truthy JUndefined = False"
| "truthy JNull = False"
| "truthy (JBool b) = b"
| "truthy (JNumber n) = (n \<noteq> 0)"
| "truthy (JString s) = (s \<noteq> [])"
| "truthy JObject = True"
| "truthy (JArray xs) = True"

fun jsToString :: "jsonValue \<Rightarrow> string" where
  "jsToString JUndefined = ''undefined''"
| "jsToString JNull = ''null''"
| "jsToString (JBool b) = (if b then ''true'' else ''false'')"
| "jsToString (JNumber n) = showInt n"
| "jsToString (JString s) = s"
| "jsToString JObject = ''[object Object]''"
| "jsToString (JArray xs) =
     joinStr '',''
       (map (\<lambda>x. if x = JNull \<or> x = JUndefined then [] else jsToString x) xs)"

fun isNumber :: "jsonValue \<Rightarrow> bool" where
  "isNumber (JNumber n) = True"
| "isNumber j = False"

fun isString :: "jsonValue \<Rightarrow> bool" where
  "isString (JString s) = True"
| "isString j = False"

text \<open>The number or the string a field holds, once its \<^verbatim>\<open>typeof\<close> test has passed.\<close>

fun numberOf :: "jsonValue \<Rightarrow> int" where
  "numberOf (JNumber n) = n"
| "numberOf j = 0"

fun stringOf :: "jsonValue \<Rightarrow> string" where
  "stringOf (JString s) = s"
| "stringOf j = []"

text \<open>The browser functions the receiver calls: \<^verbatim>\<open>window.atob\<close> and
  \<^verbatim>\<open>decodeURIComponent\<close>, \<open>None\<close> where they throw.\<close>

record browser =
  atob :: "string \<Rightarrow> byte list option"
  decodeURIComponent :: "string \<Rightarrow> string option"

definition base64ToArrayBuffer :: "browser \<Rightarrow> string \<Rightarrow> byte list" where
  "base64ToArrayBuffer env base64 = (case atob env base64 of Some bytes \<Rightarrow> bytes | None \<Rightarrow> [])"

definition safeDecodeURIComponent :: "browser \<Rightarrow> string \<Rightarrow> string option \<Rightarrow> string option" where
  "safeDecodeURIComponent env encodedString fallback =
     (case decodeURIComponent env encodedString of Some d \<Rightarrow> Some d | None \<Rightarrow> fallback)"

subsection \<open>state.ts: the receiver's variables\<close>

datatype ReceiverState =
  R_idle | R_waiting_handshake | R_receiving_data | R_waiting_final
  | R_waiting_missing | R_verifying | R_complete | R_error

text \<open>An archive whose single file is being extracted (the \<^verbatim>\<open>await\<close> in
  \<^verbatim>\<open>verifyAndDownload\<close>): the verified bytes, the file looked for, the download name.\<close>

record extraction =
  receivedZipBuffer :: "byte list"
  originalFilename :: string
  finalFilename :: string

record receiver =
  qrScanner :: bool
  isScanning :: bool
  expectedFileId :: "string option"
  expectedTotalChunks :: "int option"
  expectedArchiveName :: "string option"
  expectedDataSize :: "int option"
  expectedIsZip :: bool
  expectedOriginalFilename :: "string option"
  receivedChunksMap :: "(int, string) jsMap"
  receivedChunkCount :: int
  receiverState :: ReceiverState
  pendingExtraction :: "extraction option"
  cleanupTimer :: "string option"
  receiverStatus :: string
  receiverStatusIsError :: bool
  receiverDebug :: string
  missingChunksInfoHidden :: bool
  missingChunksCount :: string
  missingChunksList :: string
  downloads :: "(byte list \<times> string) list"

definition setReceiverState :: "ReceiverState \<Rightarrow> receiver \<Rightarrow> receiver" where
  "setReceiverState newState s = s\<lparr>receiverState := newState\<rparr>"

definition setExpectedFileId :: "string option \<Rightarrow> receiver \<Rightarrow> receiver" where
  "setExpectedFileId i s = s\<lparr>expectedFileId := i\<rparr>"

definition setExpectedData ::
  "string option \<Rightarrow> int option \<Rightarrow> int option \<Rightarrow> bool \<Rightarrow> string option \<Rightarrow> receiver \<Rightarrow> receiver" where
  "setExpectedData archiveName dataSize totalChunks isZip origName s =
     s\<lparr>expectedArchiveName := archiveName, expectedDataSize := dataSize,
       expectedTotalChunks := totalChunks, expectedIsZip := isZip,
       expectedOriginalFilename := origName\<rparr>"

definition clearReceivedChunks :: "receiver \<Rightarrow> receiver" where
  "clearReceivedChunks s = s\<lparr>receivedChunksMap := [], receivedChunkCount := 0\<rparr>"

definition addReceivedChunk :: "int \<Rightarrow> string \<Rightarrow> receiver \<Rightarrow> receiver" where
  "addReceivedChunk sq data s =
     (if \<not> mapHas (receivedChunksMap s) sq
      then s\<lparr>receivedChunksMap := mapSet (receivedChunksMap s) sq data,
             receivedChunkCount := receivedChunkCount s + 1\<rparr>
      else s)"

definition resetReceiverStateInternal :: "receiver \<Rightarrow> receiver" where
  "resetReceiverStateInternal s =
     s\<lparr>receiverState := R_idle, expectedFileId := None, expectedTotalChunks := None,
       expectedArchiveName := None, expectedDataSize := None, expectedIsZip := False,
       expectedOriginalFilename := None, receivedChunksMap := [], receivedChunkCount := 0\<rparr>"

text \<open>The variables as the module initialises them, on a page that shows nothing yet.\<close>

definition initialReceiver :: receiver where
  "initialReceiver =
     \<lparr>qrScanner = False, isScanning = False, expectedFileId = None,
      expectedTotalChunks = None, expectedArchiveName = None, expectedDataSize = None,
      expectedIsZip = False, expectedOriginalFilename = None, receivedChunksMap = [],
      receivedChunkCount = 0, receiverState = R_idle, pendingExtraction = None,
      cleanupTimer = None, receiverStatus = [], receiverStatusIsError = False,
      receiverDebug = [], missingChunksInfoHidden = True, missingChunksCount = [],
      missingChunksList = [], downloads = []\<rparr>"

subsection \<open>The texts the receiver shows\<close>

text \<open>Each status text of \<^verbatim>\<open>receiver.ts\<close> is a constant, or a function of the values its
  template literal interpolates.\<close>

definition msgReadyToScan :: string where
  "msgReadyToScan = ''Ready to scan handshake QR.''"

definition msgTransferComplete :: string where
  "msgTransferComplete = ''Transfer complete. Ready for next scan.''"

definition msgInitializingCamera :: string where
  "msgInitializingCamera = ''Initializing camera...''"

definition msgScanningActive :: string where
  "msgScanningActive = ''Scanning active. Waiting for Handshake QR...''"

definition msgCameraDenied :: string where
  "msgCameraDenied = ''Camera access denied. Please grant permission.''"

definition msgNoCamera :: string where
  "msgNoCamera = ''No camera found.''"

definition msgScannerError :: string where
  "msgScannerError = ''Scanner Error: ''"

definition msgErrorStartingScanner :: string where
  "msgErrorStartingScanner = ''Error starting scanner.''"

definition msgScanningStopped :: string where
  "msgScanningStopped = ''Scanning stopped.''"

definition msgWaitingScanAgain :: "string \<Rightarrow> string" where
  "msgWaitingScanAgain a = ''Waiting for '' @ a @ '' missing chunk(s). Scan the QR codes again.''"

definition msgAllMissingNowReceived :: string where
  "msgAllMissingNowReceived = ''All missing chunks now received! Waiting final confirm again...''"

definition msgHandshakeNoData :: string where
  "msgHandshakeNoData = ''Handshake OK (0 data chunks). Waiting for Final QR...''"

definition msgHandshakeReceiving :: "string \<Rightarrow> string" where
  "msgHandshakeReceiving a = ''Handshake OK! Receiving chunks for '' @ a @ ''...''"

definition msgReceivedChunk :: "string \<Rightarrow> string \<Rightarrow> string \<Rightarrow> string" where
  "msgReceivedChunk a b c =
     ''Received chunk '' @ a @ ''/'' @ b @ ''. Total unique: '' @ c @ ''.''"

definition msgAllMissingReceived :: string where
  "msgAllMissingReceived = ''All missing chunks received! Waiting for Final QR again...''"

definition msgAllDataReceived :: "string \<Rightarrow> string" where
  "msgAllDataReceived a = ''All '' @ a @ '' data chunks received. Waiting for Final QR...''"

definition msgChunkCountMismatch :: "string \<Rightarrow> string \<Rightarrow> string" where
  "msgChunkCountMismatch a b = ''Internal Error: Chunk count mismatch ('' @ a @ ''/'' @ b @ '').''"

definition msgAssembling :: string where
  "msgAssembling = ''All chunks present. Assembling data...''"

definition msgAssemblyError :: "string \<Rightarrow> string" where
  "msgAssemblyError a =
     ''Error during data assembly: Critical Error: Missing chunk #'' @ a
       @ '' during final assembly!''"

definition msgDecoding :: string where
  "msgDecoding = ''Decoding and verifying data size...''"

definition msgDecodeError :: string where
  "msgDecodeError = ''Error decoding base64 data: Base64 decoding resulted in an empty buffer.''"

definition msgSizeMismatch :: "string \<Rightarrow> string \<Rightarrow> string" where
  "msgSizeMismatch a b =
     ''Verification FAILED: Size mismatch (Expected: '' @ a @ '', Received: '' @ b @ '')''"

definition msgVerifyingChecksum :: string where
  "msgVerifyingChecksum = ''Verifying data checksum...''"

definition msgChecksumMismatch :: string where
  "msgChecksumMismatch = ''Verification FAILED: Checksum mismatch! Data is likely corrupt.''"

definition msgDataVerified :: string where
  "msgDataVerified = ''Data verified (Size & Checksum OK). Preparing download...''"

definition msgExtractingSingle :: "string \<Rightarrow> string" where
  "msgExtractingSingle a = ''Extracting single file: '' @ a @ ''...''"

definition msgArchiveVerified :: "string \<Rightarrow> string" where
  "msgArchiveVerified a = ''Archive verified. Starting download: '' @ a @ ''...''"

definition msgMissingFileInfo :: string where
  "msgMissingFileInfo = ''Internal Error: Missing file info for verification.''"

definition msgExtractionSuccessful :: string where
  "msgExtractionSuccessful = ''Extraction successful! Starting download...''"

definition msgFileNotInArchive :: "string \<Rightarrow> string" where
  "msgFileNotInArchive a =
     ''Error: Expected file not found in archive. Downloading the raw archive '' @ [CHR 0x27]
       @ a @ [CHR 0x27] @ '' instead.''"

definition msgExtractionFailed :: "string \<Rightarrow> string" where
  "msgExtractionFailed a =
     ''Error extracting file from ZIP. Downloading the raw archive '' @ [CHR 0x27] @ a
       @ [CHR 0x27] @ '' instead.''"

definition msgDownloadTriggered :: "string \<Rightarrow> string" where
  "msgDownloadTriggered a = ''Download triggered for '' @ a @ ''. Ready for next scan.''"

definition msgTotalUnknown :: string where
  "msgTotalUnknown = ''Internal Error: Cannot check for missing chunks, total count unknown.''"

definition msgWaitingKeepScanning :: "string \<Rightarrow> string" where
  "msgWaitingKeepScanning a = ''Waiting for '' @ a @ '' missing chunk(s). Keep scanning.''"

definition msgFinalWithoutChecksum :: string where
  "msgFinalWithoutChecksum = ''Final packet received, but checksum is missing or invalid! Cannot verify.''"

definition msgFinalReceived :: string where
  "msgFinalReceived = ''Final confirmation QR received. Checking chunk completeness...''"

definition msgIncompatibleVersion :: "string \<Rightarrow> string \<Rightarrow> string" where
  "msgIncompatibleVersion a b =
     ''Incompatible protocol version (Received: '' @ a @ '', Expected: '' @ b @ ''). Stopping.''"

subsection \<open>receiver.ts\<close>

definition updateReceiverStatus :: "string \<Rightarrow> bool \<Rightarrow> receiver \<Rightarrow> receiver" where
  "updateReceiverStatus message isError s =
     (let s1 = s\<lparr>receiverStatus := (if isError then ''Error: '' else ''Status: '') @ message,
                 receiverStatusIsError := isError\<rparr>
      in if isError then setReceiverState R_error s1 else s1)"

definition updateReceiverUI :: "receiver \<Rightarrow> receiver" where
  "updateReceiverUI s =
     (let s1 =
        (if receiverState s = R_idle
           then updateReceiverStatus msgReadyToScan False s
         else if receiverState s = R_error then s
         else if receiverState s = R_complete
           then updateReceiverStatus msgTransferComplete False s
         else s)
      in s1\<lparr>receiverDebug := [], missingChunksInfoHidden := True\<rparr>)"

text \<open>\<^verbatim>\<open>startScan\<close> up to the call of the scanner's \<^verbatim>\<open>start()\<close>; the promise it returns is
  settled later by \<open>scannerStarted\<close> or \<open>scannerStartFailed\<close>.\<close>

definition startScan :: "receiver \<Rightarrow> receiver" where
  "startScan s =
     (if isScanning s then s
      else
        (let s1 = resetReceiverStateInternal s;
             s2 = updateReceiverUI s1;
             s3 = setReceiverState R_waiting_handshake s2;
             s4 = updateReceiverStatus msgInitializingCamera False s3;
             s5 = s4\<lparr>missingChunksInfoHidden := True\<rparr>
         in s5\<lparr>qrScanner := True\<rparr>))"

definition scannerStarted :: "receiver \<Rightarrow> receiver" where
  "scannerStarted s =
     updateReceiverStatus msgScanningActive False
       (s\<lparr>isScanning := True\<rparr>)"

datatype startError = NotAllowedError | NotFoundError | OtherError string | NotAnError

definition scannerStartFailed :: "startError \<Rightarrow> receiver \<Rightarrow> receiver" where
  "scannerStartFailed err s =
     (let message =
            (case err of
               NotAllowedError \<Rightarrow> msgCameraDenied
             | NotFoundError \<Rightarrow> msgNoCamera
             | OtherError m \<Rightarrow> msgScannerError @ m
             | NotAnError \<Rightarrow> msgErrorStartingScanner);
          s1 = updateReceiverStatus message True s;
          s2 = resetReceiverStateInternal s1;
          s3 = s2\<lparr>qrScanner := False, isScanning := False\<rparr>
      in updateReceiverUI s3)"

definition stopScan :: "receiver \<Rightarrow> receiver" where
  "stopScan s =
     (if \<not> (isScanning s \<and> qrScanner s) then s
      else
        (let s1 = s\<lparr>qrScanner := False, isScanning := False\<rparr>
         in if receiverState s \<noteq> R_complete \<and> receiverState s \<noteq> R_error
            then updateReceiverStatus msgScanningStopped False s1
            else s1))"

text \<open>The loop \<^verbatim>\<open>for (i = 1; i <= total; i++) if (!map.has(i)) missing.push(i)\<close>.\<close>

definition findMissing :: "int \<Rightarrow> (int, string) jsMap \<Rightarrow> int list" where
  "findMissing totalChunks m = filter (\<lambda>i. \<not> mapHas m i) [1..totalChunks]"

definition displayMissingChunks :: "receiver \<Rightarrow> receiver" where
  "displayMissingChunks s =
     (case expectedTotalChunks s of
        None \<Rightarrow> s
      | Some totalChunks \<Rightarrow>
          (let missing = findMissing totalChunks (receivedChunksMap s) in
           if length missing > 0 then
             updateReceiverStatus (msgWaitingScanAgain (showNat (length missing))) False
               (s\<lparr>missingChunksCount := (showNat (length missing)),
                  missingChunksList := (formatMissingChunks missing),
                  missingChunksInfoHidden := False\<rparr>)
           else
             (let s1 = s\<lparr>missingChunksInfoHidden := True\<rparr> in
              if receiverState s = R_waiting_missing then
                setReceiverState R_waiting_final
                  (updateReceiverStatus msgAllMissingNowReceived False s1)
              else s1)))"

text \<open>The strict comparison \<^verbatim>\<open>payload.fid === expectedFileId\<close> of a JSON field with a
  variable that holds a string or \<^verbatim>\<open>null\<close>.\<close>

fun strictEq :: "jsonValue \<Rightarrow> string option \<Rightarrow> bool" where
  "strictEq (JString a) (Some b) = (a = b)"
| "strictEq JNull None = True"
| "strictEq j x = False"

definition nullableText :: "int option \<Rightarrow> string" where
  "nullableText x = (case x of None \<Rightarrow> ''null'' | Some n \<Rightarrow> showInt n)"

definition processHandshake :: "browser \<Rightarrow> qrPayload \<Rightarrow> receiver \<Rightarrow> receiver" where
  "processHandshake env handshake s =
     (if \<not> isString (p_nam handshake) \<or> \<not> isNumber (p_siz handshake)
           \<or> \<not> isNumber (p_tot handshake) \<or> numberOf (p_tot handshake) < 0
           \<or> p_zip handshake \<noteq> JBool True
      then s\<lparr>receiverDebug := ''HShake Field Err''\<rparr>
      else if expectedFileId s = None \<or> expectedFileId s = Some []
              \<or> \<not> strictEq (p_fid handshake) (expectedFileId s) then
        (let s1 = clearReceivedChunks s;
             s2 = setExpectedFileId
                    (if isString (p_fid handshake) then Some (stringOf (p_fid handshake))
                     else None) s1;
             archiveName =
               safeDecodeURIComponent env (stringOf (p_nam handshake))
                 (Some MULTI_FILE_ARCHIVE_NAME);
             origName =
               (if truthy (p_ofn handshake)
                then safeDecodeURIComponent env (jsToString (p_ofn handshake)) None
                else None);
             s3 = setExpectedData archiveName (Some (numberOf (p_siz handshake)))
                    (Some (numberOf (p_tot handshake))) True origName s2;
             s4 = s3\<lparr>missingChunksInfoHidden := True\<rparr>
         in if numberOf (p_tot handshake) = 0 then
              setReceiverState R_waiting_final
                (updateReceiverStatus msgHandshakeNoData False s4)
            else
              setReceiverState R_receiving_data
                (updateReceiverStatus
                   (msgHandshakeReceiving ((case archiveName of Some a \<Rightarrow> a | None \<Rightarrow> ''null'')))
                   False s4))
      else s)"

definition processDataChunk :: "qrPayload \<Rightarrow> receiver \<Rightarrow> receiver" where
  "processDataChunk dataChunk s =
     (if \<not> isNumber (p_seq dataChunk) \<or> numberOf (p_seq dataChunk) \<le> 0
           \<or> numberOf (p_seq dataChunk)
                > (case expectedTotalChunks s of None \<Rightarrow> 0 | Some t \<Rightarrow> t)
           \<or> \<not> isString (p_dat dataChunk) \<or> stringOf (p_dat dataChunk) = []
      then s\<lparr>receiverDebug := ''DChunk Field Err''\<rparr>
      else
        (let sq = numberOf (p_seq dataChunk); d = stringOf (p_dat dataChunk) in
         if \<not> mapHas (receivedChunksMap s) sq then
           (let s1 = addReceivedChunk sq d s;
                s2 = updateReceiverStatus (msgReceivedChunk (showInt sq) (nullableText (expectedTotalChunks s)) (showInt (receivedChunkCount s1))) False s1;
                nowComplete = (Some (receivedChunkCount s2) = expectedTotalChunks s)
            in if receiverState s = R_waiting_missing then
                 (let s3 = displayMissingChunks s2 in
                  if nowComplete then
                    setReceiverState R_waiting_final
                      ((updateReceiverStatus msgAllMissingReceived False s3)\<lparr>missingChunksInfoHidden := True\<rparr>)
                  else s3)
               else if nowComplete then
                 setReceiverState R_waiting_final
                   (updateReceiverStatus (msgAllDataReceived (nullableText (expectedTotalChunks s))) False s2)
               else s2)
         else s\<lparr>receiverDebug := ''Dup #'' @ showInt sq\<rparr>))"

text \<open>The assembly loop of \<^verbatim>\<open>verifyAndDownload\<close>: the chunks \<open>1..total\<close> in sequence
  order; \<open>Inl i\<close> is the exception thrown at the first \<open>i\<close> whose chunk is absent or
  empty.\<close>

fun assembleChunks :: "(int, string) jsMap \<Rightarrow> int list \<Rightarrow> string list \<Rightarrow> int + string list" where
  "assembleChunks m [] chunkArray = Inr chunkArray"
| "assembleChunks m (i # rest) chunkArray =
     (case mapGet m i of
        None \<Rightarrow> Inl i
      | Some chunkData \<Rightarrow>
          if chunkData \<noteq> [] then assembleChunks m rest (chunkArray @ [chunkData]) else Inl i)"

definition triggerFileDownload :: "byte list \<Rightarrow> string \<Rightarrow> receiver \<Rightarrow> receiver" where
  "triggerFileDownload buffer filename s = s\<lparr>downloads := downloads s @ [(buffer, filename)]\<rparr>"

text \<open>Step 7 of \<^verbatim>\<open>verifyAndDownload\<close>: in the state \<^verbatim>\<open>complete\<close> the reset is scheduled.\<close>

definition postDownloadCleanup :: "string \<Rightarrow> receiver \<Rightarrow> receiver" where
  "postDownloadCleanup filename s =
     (if receiverState s = R_complete then s\<lparr>cleanupTimer := Some filename\<rparr> else s)"

definition failVerification :: "string \<Rightarrow> receiver \<Rightarrow> receiver" where
  "failVerification message s = setReceiverState R_error (updateReceiverStatus message True s)"

definition verifyAndDownload :: "browser \<Rightarrow> qrPayload \<Rightarrow> receiver \<Rightarrow> receiver" where
  "verifyAndDownload env finalPayload s =
     (let s1 = (if isScanning s then stopScan s else s) in
      case (expectedTotalChunks s, expectedDataSize s, expectedArchiveName s) of
        (Some totalChunks, Some dataSize, Some archiveName) \<Rightarrow>
          if receivedChunkCount s \<noteq> totalChunks then
            displayMissingChunks
              (failVerification (msgChunkCountMismatch (showInt (receivedChunkCount s)) (showInt totalChunks)) s1)
          else
            (let s2 = updateReceiverStatus msgAssembling False s1 in
             case assembleChunks (receivedChunksMap s) [1..totalChunks] [] of
               Inl i \<Rightarrow>
                 failVerification (msgAssemblyError (showInt i)) s2
             | Inr chunkArray \<Rightarrow>
                 (let fullBase64Zip = concat chunkArray;
                      s3 = updateReceiverStatus msgDecoding False s2;
                      buf = base64ToArrayBuffer env fullBase64Zip
                  in if length buf = 0 \<and> dataSize > 0 then
                       failVerification msgDecodeError s3
                     else if int (length buf) \<noteq> dataSize then
                       failVerification (msgSizeMismatch (showInt dataSize) (showNat (length buf))) s3
                     else
                       (let s4 = updateReceiverStatus msgVerifyingChecksum False s3;
                            calculatedChecksum = calculateChecksum buf
                        in if JString calculatedChecksum \<noteq> p_chk finalPayload then
                             failVerification msgChecksumMismatch s4
                           else
                             (let s5 = updateReceiverStatus msgDataVerified False s4;
                                  orig = (case expectedOriginalFilename s of
                                            None \<Rightarrow> [] | Some n \<Rightarrow> n);
                                  filename =
                                    (if orig \<noteq> [] then orig
                                     else if archiveName \<noteq> [] then archiveName
                                     else MULTI_FILE_ARCHIVE_NAME)
                              in if orig \<noteq> [] then
                                   (updateReceiverStatus (msgExtractingSingle orig) False s5)
                                     \<lparr>pendingExtraction :=
                                        Some \<lparr>receivedZipBuffer = buf, originalFilename = orig,
                                              finalFilename = filename\<rparr>\<rparr>
                                 else
                                   postDownloadCleanup filename
                                     (triggerFileDownload buf filename
                                        (setReceiverState R_complete
                                           (updateReceiverStatus (msgArchiveVerified filename) False s5)))))))
      | _ \<Rightarrow>
          failVerification msgMissingFileInfo s1)"

text \<open>The rest of \<^verbatim>\<open>verifyAndDownload\<close> after the \<^verbatim>\<open>await\<close>: what the archive library
  answered, then the download and the scheduled reset.\<close>

datatype zipOutcome = ZipFound "byte list" | ZipNotFound | ZipFailed

definition extractionDone :: "zipOutcome \<Rightarrow> receiver \<Rightarrow> receiver" where
  "extractionDone outcome s =
     (case pendingExtraction s of
        None \<Rightarrow> s
      | Some ex \<Rightarrow>
          (let s0 = s\<lparr>pendingExtraction := None\<rparr>;
               s1 =
                 (case outcome of
                    ZipFound extractedBuffer \<Rightarrow>
                      triggerFileDownload extractedBuffer (finalFilename ex)
                        (setReceiverState R_complete
                           (updateReceiverStatus msgExtractionSuccessful
                              False s0))
                  | ZipNotFound \<Rightarrow>
                      triggerFileDownload (receivedZipBuffer ex) (finalFilename ex)
                        (setReceiverState R_complete
                           (updateReceiverStatus
                              (msgFileNotInArchive (finalFilename ex))
                              True s0))
                  | ZipFailed \<Rightarrow>
                      triggerFileDownload (receivedZipBuffer ex) (finalFilename ex)
                        (setReceiverState R_complete
                           (updateReceiverStatus
                              (msgExtractionFailed (finalFilename ex))
                              True s0)))
           in postDownloadCleanup (finalFilename ex) s1))"

text \<open>The callback of the 100 ms timer set after a download.\<close>

definition cleanupFired :: "receiver \<Rightarrow> receiver" where
  "cleanupFired s =
     (case cleanupTimer s of
        None \<Rightarrow> s
      | Some filename \<Rightarrow>
          updateReceiverUI
            (resetReceiverStateInternal
               (updateReceiverStatus (msgDownloadTriggered filename) False
                  (s\<lparr>cleanupTimer := None\<rparr>))))"

definition checkForMissingChunksAndFinalize :: "browser \<Rightarrow> qrPayload \<Rightarrow> receiver \<Rightarrow> receiver" where
  "checkForMissingChunksAndFinalize env finalPayload s =
     (case expectedTotalChunks s of
        None \<Rightarrow>
          (let s1 = failVerification msgTotalUnknown s
           in if isScanning s then stopScan s1 else s1)
      | Some totalChunks \<Rightarrow>
          if totalChunks = 0 then
            verifyAndDownload env finalPayload (s\<lparr>missingChunksInfoHidden := True\<rparr>)
          else
            (let missingChunks = findMissing totalChunks (receivedChunksMap s) in
             if length missingChunks = 0 then
               verifyAndDownload env finalPayload (s\<lparr>missingChunksInfoHidden := True\<rparr>)
             else
               (let s1 = setReceiverState R_waiting_missing s;
                    s2 = displayMissingChunks s1
                in if \<not> isScanning s then startScan s2
                   else updateReceiverStatus (msgWaitingKeepScanning (showNat (length missingChunks))) False s2)))"

definition handleFinalPacket :: "browser \<Rightarrow> qrPayload \<Rightarrow> receiver \<Rightarrow> receiver" where
  "handleFinalPacket env finalPayload s =
     (if \<not> strictEq (p_fid finalPayload) (expectedFileId s) then s
      else if \<not> (isString (p_chk finalPayload) \<and> p_chk finalPayload \<noteq> JString []) then
        stopScan
          (failVerification msgFinalWithoutChecksum s)
      else
        checkForMissingChunksAndFinalize env finalPayload
          (updateReceiverStatus msgFinalReceived False s))"

text \<open>\<^verbatim>\<open>handleScanResult\<close>: the state gate, the structure and version checks, the file-id
  filter, then the state machine.\<close>

definition acceptsScans :: "ReceiverState \<Rightarrow> bool" where
  "acceptsScans st =
     (st = R_waiting_handshake \<or> st = R_receiving_data \<or> st = R_waiting_final
        \<or> st = R_waiting_missing)"

definition structureOk :: "qrPayload \<Rightarrow> bool" where
  "structureOk payload =
     (isNumber (p_v payload) \<and> isString (p_fid payload) \<and> isString (p_typ payload)
        \<and> truthy (p_fid payload))"

definition handleScanResult :: "browser \<Rightarrow> scan \<Rightarrow> receiver \<Rightarrow> receiver" where
  "handleScanResult env result s =
     (if \<not> acceptsScans (receiverState s) then s
      else
        (case result of
           ParseError \<Rightarrow> s\<lparr>receiverDebug := ''JSON Err''\<rparr>
         | NotAnObject \<Rightarrow> s\<lparr>receiverDebug := ''Struct Err''\<rparr>
         | Payload payload \<Rightarrow>
             if \<not> structureOk payload then s\<lparr>receiverDebug := ''Struct Err''\<rparr>
             else if p_v payload \<noteq> JNumber PROTOCOL_VERSION then
               stopScan
                 (updateReceiverStatus (msgIncompatibleVersion (jsToString (p_v payload)) (showInt PROTOCOL_VERSION)) True s)
             else if receiverState s \<noteq> R_waiting_handshake
                     \<and> expectedFileId s \<noteq> None \<and> expectedFileId s \<noteq> Some []
                     \<and> \<not> strictEq (p_fid payload) (expectedFileId s)
             then s\<lparr>receiverDebug := ''FID Err''\<rparr>
             else if receiverState s = R_waiting_handshake then
               (if p_typ payload = JString ''h'' then processHandshake env payload s
                else if p_typ payload = JString ''f'' \<and> strictEq (p_fid payload) (expectedFileId s)
                  then handleFinalPacket env payload s
                else s)
             else if receiverState s = R_receiving_data \<or> receiverState s = R_waiting_missing then
               (if p_typ payload = JString ''d'' \<and> strictEq (p_fid payload) (expectedFileId s)
                  then processDataChunk payload s
                else if p_typ payload = JString ''f'' \<and> strictEq (p_fid payload) (expectedFileId s)
                  then handleFinalPacket env payload s
                else s)
             else
               (if p_typ payload = JString ''f'' \<and> strictEq (p_fid payload) (expectedFileId s)
                  then handleFinalPacket env payload s
                else if p_typ payload = JString ''d'' \<and> strictEq (p_fid payload) (expectedFileId s)
                  then processDataChunk payload s
                else s)))"

text \<open>Everything that can happen to the receiver: the two buttons, the scanner's promise,
  a decoded code, the archive library's answer and the reset timer.\<close>

datatype receiverEvent =
  EvStartScan | EvStopScan | EvScannerStarted | EvScannerStartFailed startError
  | EvScanResult scan | EvExtractionDone zipOutcome | EvCleanupTimer

fun receiverStep :: "browser \<Rightarrow> receiverEvent \<Rightarrow> receiver \<Rightarrow> receiver" where
  "receiverStep env EvStartScan s = startScan s"
| "receiverStep env EvStopScan s = stopScan s"
| "receiverStep env EvScannerStarted s = scannerStarted s"
| "receiverStep env (EvScannerStartFailed err) s = scannerStartFailed err s"
| "receiverStep env (EvScanResult result) s = handleScanResult env result s"
| "receiverStep env (EvExtractionDone outcome) s = extractionDone outcome s"
| "receiverStep env EvCleanupTimer s = cleanupFired s"

definition receiverRun :: "browser \<Rightarrow> receiverEvent list \<Rightarrow> receiver \<Rightarrow> receiver" where
  "receiverRun env events s = fold (receiverStep env) events s"

inductive reachable :: "browser \<Rightarrow> receiver \<Rightarrow> bool" for env :: browser where
  reachable_init: "reachable env initialReceiver"
| reachable_step: "reachable env s \<Longrightarrow> reachable env (receiverStep env ev s)"

subsection \<open>state.ts: the sender's variables\<close>

datatype SenderPhase =
  S_idle | S_processing | S_ready | S_transferring | S_final_qr_displayed
  | S_post_final | S_sending_specific | S_error

text \<open>The function a pending \<^verbatim>\<open>setTimeout\<close> will call.\<close>

datatype timerCallback =
  CbDisplayNextChunk | CbHandlePostFinalState | CbDisplaySpecificChunk
  | CbDisplayFinalConfirmationQR

text \<open>
  The sender: the variables of \<^verbatim>\<open>state.ts\<close>, the flag \<^verbatim>\<open>isCurrentSequenceManual\<close> of
  \<^verbatim>\<open>sender.ts\<close>, the form controls the operations read, the two status lines, and the QR
  container with the list of every payload handed to the QR library so far.
  \<open>transferTimer\<close> holds the callback of the timer that is pending, if one is.
\<close>

record sender =
  filesToSend :: "string list"
  isSingleFileOriginal :: bool
  originalSingleFilename :: "string option"
  dataToSendBuffer :: "byte list option"
  base64Data :: string
  chunks :: "string list"
  currentChunkIndex :: int
  totalDataChunks :: int
  transferFileId :: string
  transferTimer :: "timerCallback option"
  dataToSendChecksum :: string
  senderTransferPhase :: SenderPhase
  specificChunksToSend :: "int list"
  specificChunkSendIndex :: nat
  totalStepsInCurrentSequence :: int
  isCurrentSequenceManual :: bool
  errorCorrectionLevelSelect :: string
  chunkSizeInput :: string
  manualModeCheckbox :: bool
  resendManualModeCheckbox :: bool
  specificChunksInput :: string
  senderStatus :: string
  senderStatusIsError :: bool
  sendSpecificStatus :: string
  qrCodeContainer :: "string option"
  displayedPayloads :: "string list"


definition setSenderPhase :: "SenderPhase \<Rightarrow> sender \<Rightarrow> sender" where
  "setSenderPhase phase s = s\<lparr>senderTransferPhase := phase\<rparr>"

definition setCurrentChunkIndex :: "int \<Rightarrow> sender \<Rightarrow> sender" where
  "setCurrentChunkIndex i s = s\<lparr>currentChunkIndex := i\<rparr>"


definition setTransferTimer :: "timerCallback option \<Rightarrow> sender \<Rightarrow> sender" where
  "setTransferTimer timer s = s\<lparr>transferTimer := timer\<rparr>"

definition setSpecificChunksToSend :: "int list \<Rightarrow> sender \<Rightarrow> sender" where
  "setSpecificChunksToSend specificChunks s = s\<lparr>specificChunksToSend := specificChunks\<rparr>"

definition setSpecificChunkSendIndex :: "nat \<Rightarrow> sender \<Rightarrow> sender" where
  "setSpecificChunkSendIndex i s = s\<lparr>specificChunkSendIndex := i\<rparr>"

definition setTotalStepsInCurrentSequence :: "int \<Rightarrow> sender \<Rightarrow> sender" where
  "setTotalStepsInCurrentSequence steps s = s\<lparr>totalStepsInCurrentSequence := steps\<rparr>"

definition resetSenderStateInternal :: "bool \<Rightarrow> sender \<Rightarrow> sender" where
  "resetSenderStateInternal clearFiles s =
     (let s1 = s\<lparr>transferTimer := None\<rparr>;
          s2 = s1\<lparr>senderTransferPhase :=
                    (if clearFiles then S_idle
                     else if dataToSendBuffer s \<noteq> None then S_ready else S_idle),
                  specificChunksToSend := [], specificChunkSendIndex := 0,
                  totalStepsInCurrentSequence := 0, currentChunkIndex := - 1,
                  transferFileId := [], chunks := [], totalDataChunks := 0\<rparr>
      in if clearFiles then
           s2\<lparr>filesToSend := [], dataToSendBuffer := None, base64Data := [],
              dataToSendChecksum := [], isSingleFileOriginal := False,
              originalSingleFilename := None, senderTransferPhase := S_idle\<rparr>
         else s2)"

subsection \<open>The texts the sender shows\<close>







definition msgStoppedReady :: string where
  "msgStoppedReady = ''Transfer stopped. Ready for new file/folder.''"

definition msgStoppedFileLoaded :: string where
  "msgStoppedFileLoaded = ''Transfer stopped. File still loaded.''"

definition msgSequenceComplete :: string where
  "msgSequenceComplete = ''Transfer sequence complete. Check receiver status for missing chunks.''"

definition msgPayloadTooLarge :: "string \<Rightarrow> string \<Rightarrow> string" where
  "msgPayloadTooLarge a b =
     ''ERROR: Payload size ('' @ a @ '') may exceed QR capacity (~'' @ b
       @ ''). Try increasing chunk size target or lowering EC level.''"

definition msgFinalDisplayedClick :: string where
  "msgFinalDisplayedClick = ''Final QR displayed. Click button for options.''"

definition msgFinalDisplayedWaiting :: string where
  "msgFinalDisplayedWaiting = ''Final QR displayed. Waiting for receiver check...''"

definition msgDataErrorTransfer :: string where
  "msgDataErrorTransfer = ''Data error occurred during transfer.''"

definition msgProgress :: "string \<Rightarrow> string \<Rightarrow> string" where
  "msgProgress a b = '' ['' @ a @ ''/'' @ b @ '']''"

definition msgDisplayingHandshake :: "string \<Rightarrow> string" where
  "msgDisplayingHandshake a = ''Displaying Handshake'' @ a"

definition msgInvalidChunkIndex :: "string \<Rightarrow> string" where
  "msgInvalidChunkIndex a = ''Internal Error: Invalid data chunk index '' @ a @ ''.''"

definition msgDisplayingChunk :: "string \<Rightarrow> string \<Rightarrow> string \<Rightarrow> string" where
  "msgDisplayingChunk a b c = ''Displaying Chunk '' @ a @ ''/'' @ b @ c"

definition msgMissingChecksum :: string where
  "msgMissingChecksum = ''Internal Error: Missing checksum for final packet.''"

definition msgDisplayingFinal :: "string \<Rightarrow> string" where
  "msgDisplayingFinal a = ''Displaying Final Confirmation'' @ a"

definition msgCannotDisplayFinal :: string where
  "msgCannotDisplayFinal = ''Cannot display final QR: data or checksum missing.''"

definition msgDisplayingFinalQR :: string where
  "msgDisplayingFinalQR = ''Displaying Final Confirmation QR''"

definition msgFinalTooLarge :: string where
  "msgFinalTooLarge = ''ERROR: Final confirmation payload too large!''"

definition msgFinishedSpecific :: string where
  "msgFinishedSpecific = ''Finished sending specific chunk batch. Displaying final confirm QR...''"

definition msgSpecificComplete :: string where
  "msgSpecificComplete = ''Specific chunk send complete. Displaying final confirmation QR...''"

definition msgDataErrorSpecific :: string where
  "msgDataErrorSpecific = ''Data error occurred during specific send.''"

definition msgInvalidChunkNumber :: "string \<Rightarrow> string" where
  "msgInvalidChunkNumber a = ''Error: Invalid chunk number '' @ a @ '' requested. Skipping.''"

definition msgResendingChunk :: "string \<Rightarrow> string \<Rightarrow> string \<Rightarrow> string" where
  "msgResendingChunk a b c = ''Resending Chunk '' @ a @ '' ['' @ b @ ''/'' @ c @ '']''"

definition msgSpecificTooLarge :: "string \<Rightarrow> string" where
  "msgSpecificTooLarge a = ''ERROR: Specific chunk '' @ a @ '' payload too large!''"

definition msgCannotSendSpecific :: string where
  "msgCannotSendSpecific = ''Cannot send specific chunks: No data/chunks loaded.''"

definition msgErrorNoDataLoaded :: string where
  "msgErrorNoDataLoaded = ''Error: No data loaded.''"

definition msgInvalidInput :: string where
  "msgInvalidInput = ''Invalid input format. Use numbers, commas, and hyphens (e.g., 1,3,5-8).''"

definition msgNoValidNumbers :: string where
  "msgNoValidNumbers = ''No valid chunk numbers specified.''"

definition msgPreparingSpecific :: "string \<Rightarrow> string" where
  "msgPreparingSpecific a = ''Preparing to send '' @ a @ '' specific chunk(s)...''"

definition msgSendingChunks :: "string \<Rightarrow> string" where
  "msgSendingChunks a = ''Sending chunks: '' @ a"

definition msgCannotResend :: string where
  "msgCannotResend = ''Cannot resend: No data loaded.''"

definition msgReadyToResend :: string where
  "msgReadyToResend = ''Ready to display Handshake QR (Resend).''"

definition msgResendingTransfer :: string where
  "msgResendingTransfer = ''Resending transfer sequence...''"







subsection \<open>sender.ts\<close>

definition clearQrInstance :: "sender \<Rightarrow> sender" where
  "clearQrInstance s = s\<lparr>qrCodeContainer := None\<rparr>"

definition updateSenderStatus :: "string \<Rightarrow> bool \<Rightarrow> sender \<Rightarrow> sender" where
  "updateSenderStatus mainStatusMessage isError s =
     s\<lparr>senderStatus := (if isError then ''Error: '' else ''Status: '') @ mainStatusMessage,
       senderStatusIsError := isError\<rparr>"

definition handleFileError :: "string \<Rightarrow> sender \<Rightarrow> sender" where
  "handleFileError message s =
     setSenderPhase S_error
       (updateSenderStatus message True (clearQrInstance (resetSenderStateInternal True s)))"


text \<open>The splitting loop of \<^verbatim>\<open>prepareChunks\<close>. A loop that cannot advance does not return:
  that is the value \<open>None\<close>.\<close>

partial_function (option) splitLoop ::
  "string \<Rightarrow> nat \<Rightarrow> nat \<Rightarrow> string list \<Rightarrow> string list option" where
  "splitLoop data effectiveChunkSize startIndex newChunks =
     (if startIndex < length data then
        (let remainingLength = length data - startIndex;
             currentChunkLength = min effectiveChunkSize remainingLength
         in splitLoop data effectiveChunkSize (startIndex + currentChunkLength)
              (newChunks @ [substring data startIndex (startIndex + currentChunkLength)]))
      else Some newChunks)"

declare splitLoop.simps [code]


text \<open>\<^verbatim>\<open>encodeURIComponent\<close> on 8-bit characters: the unreserved ones stay, the others become
  the percent-escapes of their UTF-8 bytes.\<close>

definition isUriUnreserved :: "char \<Rightarrow> bool" where
  "isUriUnreserved c =
     (c \<in> set ''ABCDEFGHIJKLMNOPQRSTUVWXYZabcdefghijklmnopqrstuvwxyz0123456789-_.!~*()''
        \<or> c = CHR 0x27)"

definition percentByte :: "nat \<Rightarrow> string" where
  "percentByte n =
     [CHR ''%'', ''0123456789ABCDEF'' ! (n div 16), ''0123456789ABCDEF'' ! (n mod 16)]"

definition encodeURIComponent :: "string \<Rightarrow> string" where
  "encodeURIComponent str =
     concat (map (\<lambda>c. let n = (of_char c :: nat) in
                    if isUriUnreserved c then [c]
                    else if n < 128 then percentByte n
                    else percentByte (192 + n div 64) @ percentByte (128 + n mod 64)) str)"

text \<open>\<^verbatim>\<open>JSON.stringify\<close> of the three payload objects, the keys in the order the object
  literals give them.\<close>

definition handshakePayloadString ::
  "string \<Rightarrow> string \<Rightarrow> nat \<Rightarrow> int \<Rightarrow> string option \<Rightarrow> string" where
  \<open>handshakePayloadString fileId name byteLength totalChunks origName =
     ''{"v":'' @ showInt PROTOCOL_VERSION @ '',"fid":'' @ jsonString fileId
       @ '',"typ":"h","nam":'' @ jsonString name @ '',"siz":'' @ showNat byteLength
       @ '',"tot":'' @ showInt totalChunks @ '',"zip":true''
       @ (case origName of None \<Rightarrow> [] | Some n \<Rightarrow> '',"ofn":'' @ jsonString n) @ ''}''\<close>

definition dataPayloadString :: "string \<Rightarrow> int \<Rightarrow> string \<Rightarrow> string" where
  \<open>dataPayloadString fileId sq d =
     ''{"v":'' @ showInt PROTOCOL_VERSION @ '',"fid":'' @ jsonString fileId
       @ '',"typ":"d","seq":'' @ showInt sq @ '',"dat":'' @ jsonString d @ ''}''\<close>

definition finalPayloadString :: "string \<Rightarrow> string \<Rightarrow> string" where
  \<open>finalPayloadString fileId checksum =
     ''{"v":'' @ showInt PROTOCOL_VERSION @ '',"fid":'' @ jsonString fileId
       @ '',"typ":"f","chk":'' @ jsonString checksum @ ''}''\<close>

text \<open>
  The sanity check \<^verbatim>\<open>payloadString.length > qrCapacity * 1.1\<close>. The capacity is one of
  800, 1100, 1500, 2000, whose floating-point products with 1.1 lie within a thousandth above 880,
  1210, 1650, 2200; against an integer length the test is \<open>10 * length > 11 * capacity\<close>.
\<close>

definition exceedsCapacity :: "string \<Rightarrow> int \<Rightarrow> bool" where
  "exceedsCapacity payloadString qrCapacity = (10 * int (length payloadString) > 11 * qrCapacity)"

text \<open>\<^verbatim>\<open>generateOrUpdateQrCode\<close>: the QR library renders the payload into the container.
  The library is taken to succeed; the \<^verbatim>\<open>catch\<close> branch for a library that throws is not
  modelled.\<close>

definition generateOrUpdateQrCode :: "string \<Rightarrow> sender \<Rightarrow> sender" where
  "generateOrUpdateQrCode payloadString s =
     s\<lparr>qrCodeContainer := Some payloadString,
       displayedPayloads := displayedPayloads s @ [payloadString]\<rparr>"

definition handleStopTransfer :: "bool \<Rightarrow> sender \<Rightarrow> sender" where
  "handleStopTransfer fullReset s =
     (let s1 = resetSenderStateInternal fullReset s;
          s2 = clearQrInstance s1;
          s3 = s2\<lparr>isCurrentSequenceManual := False\<rparr>
      in updateSenderStatus
           (if fullReset then msgStoppedReady
            else msgStoppedFileLoaded) False s3)"

definition handlePostFinalState :: "sender \<Rightarrow> sender" where
  "handlePostFinalState s =
     (let s1 = setTransferTimer None s in
      if senderTransferPhase s1 \<noteq> S_transferring
           \<and> senderTransferPhase s1 \<noteq> S_sending_specific
           \<and> senderTransferPhase s1 \<noteq> S_final_qr_displayed
      then s1
      else
        (let s2 = setSenderPhase S_post_final s1;
             s3 = updateSenderStatus msgSequenceComplete False s2
         in s3\<lparr>specificChunksInput := [], sendSpecificStatus := [],
               resendManualModeCheckbox := False, isCurrentSequenceManual := False\<rparr>))"

text \<open>Sections 3 and 4 of \<^verbatim>\<open>displayNextChunk\<close>, shared by its three payload branches: the
  status line, the capacity check, the QR code, the index and the next step.\<close>

definition displayNextChunkEmit :: "string \<Rightarrow> string \<Rightarrow> sender \<Rightarrow> sender" where
  "displayNextChunkEmit payloadString mainStatus s =
     (let s1 = updateSenderStatus mainStatus False s;
          qrCapacity = getQrCapacityEstimate (errorCorrectionLevelSelect s)
      in if exceedsCapacity payloadString qrCapacity then
           handleStopTransfer False
             (resetSenderStateInternal False
                (updateSenderStatus (msgPayloadTooLarge (showNat (length payloadString)) (showInt qrCapacity)) True s1))
         else
           (let s2 = generateOrUpdateQrCode payloadString s1;
                s3 = setCurrentChunkIndex (currentChunkIndex s + 1) s2
            in if currentChunkIndex s3 \<ge> totalDataChunks s + 1 then
                 (let s4 = setSenderPhase S_final_qr_displayed s3 in
                  if isCurrentSequenceManual s then
                    updateSenderStatus msgFinalDisplayedClick False s4
                  else
                    updateSenderStatus msgFinalDisplayedWaiting False
                      (setTransferTimer (Some CbHandlePostFinalState) s4))
               else if isCurrentSequenceManual s then s3
               else setTransferTimer (Some CbDisplayNextChunk) s3))"

definition displayNextChunk :: "sender \<Rightarrow> sender" where
  "displayNextChunk s =
     (if senderTransferPhase s \<noteq> S_transferring then s
      else
        (case dataToSendBuffer s of
           None \<Rightarrow> handleFileError msgDataErrorTransfer s
         | Some buffer \<Rightarrow>
             (let currentChunkDisplayIndex = currentChunkIndex s + 1;
                  totalSteps = totalStepsInCurrentSequence s;
                  stepNumber = currentChunkDisplayIndex + 1;
                  progress = (msgProgress (showInt stepNumber) (showInt totalSteps))
              in if currentChunkDisplayIndex = 0 then
                   displayNextChunkEmit
                     (handshakePayloadString (transferFileId s)
                        (encodeURIComponent MULTI_FILE_ARCHIVE_NAME) (length buffer)
                        (totalDataChunks s)
                        (case originalSingleFilename s of
                           None \<Rightarrow> None
                         | Some n \<Rightarrow>
                             if isSingleFileOriginal s \<and> n \<noteq> []
                             then Some (encodeURIComponent n) else None))
                     (msgDisplayingHandshake progress) s
                 else if currentChunkDisplayIndex \<le> totalDataChunks s then
                   (let dataChunkIndex = currentChunkDisplayIndex - 1 in
                    if dataChunkIndex < 0 \<or> dataChunkIndex \<ge> int (length (chunks s)) then
                      handleFileError (msgInvalidChunkIndex (showInt dataChunkIndex)) s
                    else
                      displayNextChunkEmit
                        (dataPayloadString (transferFileId s) (dataChunkIndex + 1)
                           (chunks s ! nat dataChunkIndex))
                        (msgDisplayingChunk (showInt (dataChunkIndex + 1)) (showInt (totalDataChunks s)) progress) s)
                 else if currentChunkDisplayIndex = totalDataChunks s + 1 then
                   (if dataToSendChecksum s = [] then
                      handleFileError msgMissingChecksum s
                    else
                      displayNextChunkEmit
                        (finalPayloadString (transferFileId s) (dataToSendChecksum s))
                        (msgDisplayingFinal progress) s)
                 else handlePostFinalState (setSenderPhase S_post_final s))))"


definition displayFinalConfirmationQR :: "sender \<Rightarrow> sender" where
  "displayFinalConfirmationQR s =
     (if dataToSendBuffer s = None \<or> dataToSendChecksum s = [] then
        handleFileError msgCannotDisplayFinal s
      else
        (let s1 = setSenderPhase S_final_qr_displayed s;
             payloadString = finalPayloadString (transferFileId s) (dataToSendChecksum s);
             s2 = updateSenderStatus msgDisplayingFinalQR False s1;
             qrCapacity = getQrCapacityEstimate (errorCorrectionLevelSelect s)
         in if exceedsCapacity payloadString qrCapacity then
              handleStopTransfer False
                (resetSenderStateInternal False
                   (updateSenderStatus msgFinalTooLarge True s2))
            else
              (let s3 = generateOrUpdateQrCode payloadString s2 in
               if isCurrentSequenceManual s3 then s3
               else setTransferTimer (Some CbHandlePostFinalState) s3)))"

definition scheduleNextSpecificChunk :: "sender \<Rightarrow> sender" where
  "scheduleNextSpecificChunk s =
     (if senderTransferPhase s \<noteq> S_sending_specific then s
      else if specificChunkSendIndex s < length (specificChunksToSend s) then
        (if isCurrentSequenceManual s then s
         else setTransferTimer (Some CbDisplaySpecificChunk) s)
      else
        (let s1 = updateSenderStatus msgFinishedSpecific False s
         in if isCurrentSequenceManual s then s1
            else setTransferTimer (Some CbDisplayFinalConfirmationQR) s1))"

definition displaySpecificChunk :: "sender \<Rightarrow> sender" where
  "displaySpecificChunk s =
     (if senderTransferPhase s \<noteq> S_sending_specific then s
      else if specificChunkSendIndex s \<ge> length (specificChunksToSend s) then
        displayFinalConfirmationQR
          (updateSenderStatus msgSpecificComplete False s)
      else if dataToSendBuffer s = None \<or> length (chunks s) = 0 then
        handleFileError msgDataErrorSpecific s
      else
        (let currentSpecificIndex = specificChunkSendIndex s;
             chunkSequenceNumber = specificChunksToSend s ! currentSpecificIndex;
             chunkArrayIndex = chunkSequenceNumber - 1
         in if chunkArrayIndex < 0 \<or> chunkArrayIndex \<ge> int (length (chunks s)) then
              (let errorMsg = (msgInvalidChunkNumber (showInt chunkSequenceNumber))
               in scheduleNextSpecificChunk
                    (setSpecificChunkSendIndex (currentSpecificIndex + 1)
                       ((updateSenderStatus errorMsg True s)\<lparr>sendSpecificStatus := errorMsg\<rparr>)))
            else
              (let payloadString =
                     dataPayloadString (transferFileId s) chunkSequenceNumber
                       (chunks s ! nat chunkArrayIndex);
                   mainStatus =
                     (msgResendingChunk (showInt chunkSequenceNumber) (showNat (currentSpecificIndex + 1)) (showInt (totalStepsInCurrentSequence s)));
                   s1 = updateSenderStatus mainStatus False s;
                   qrCapacity = getQrCapacityEstimate (errorCorrectionLevelSelect s)
               in if exceedsCapacity payloadString qrCapacity then
                    handlePostFinalState
                      (setSenderPhase S_post_final
                         (updateSenderStatus (msgSpecificTooLarge (showInt chunkSequenceNumber)) True s1))
                  else
                    scheduleNextSpecificChunk
                      (setSpecificChunkSendIndex (currentSpecificIndex + 1)
                         (generateOrUpdateQrCode payloadString s1)))))"

definition handleSendSpecific :: "sender \<Rightarrow> sender" where
  "handleSendSpecific s =
     (if dataToSendBuffer s = None \<or> length (chunks s) = 0 then
        (updateSenderStatus msgCannotSendSpecific True s)
          \<lparr>sendSpecificStatus := msgErrorNoDataLoaded\<rparr>
      else
        (case parseChunkInput (specificChunksInput s) (totalDataChunks s) of
           None \<Rightarrow>
             s\<lparr>sendSpecificStatus :=
                 msgInvalidInput\<rparr>
         | Some parsedChunks \<Rightarrow>
             if length parsedChunks = 0 then
               s\<lparr>sendSpecificStatus := msgNoValidNumbers\<rparr>
             else
               (let s1 = setTransferTimer None s;
                    s2 = setSpecificChunksToSend parsedChunks s1;
                    s3 = setSpecificChunkSendIndex 0 s2;
                    s4 = setSenderPhase S_sending_specific s3;
                    s5 = setTotalStepsInCurrentSequence (int (length parsedChunks)) s4;
                    s6 = s5\<lparr>isCurrentSequenceManual := resendManualModeCheckbox s\<rparr>;
                    s7 = updateSenderStatus (msgPreparingSpecific (showNat (length parsedChunks))) False s6;
                    s8 = s7\<lparr>sendSpecificStatus :=
                              (msgSendingChunks (joinStr '', '' (map showInt parsedChunks)))\<rparr>
                in displaySpecificChunk s8)))"

definition handleSendAllAgain :: "sender \<Rightarrow> sender" where
  "handleSendAllAgain s =
     (if dataToSendBuffer s = None \<or> base64Data s = [] then
        updateSenderStatus msgCannotResend True s
      else
        (let s1 = setTransferTimer None s;
             s2 = setSenderPhase S_transferring s1;
             s3 = setCurrentChunkIndex (- 1) s2;
             s4 = setTotalStepsInCurrentSequence (totalDataChunks s + 2) s3;
             s5 = setSpecificChunkSendIndex 0 (setSpecificChunksToSend [] s4);
             s6 = s5\<lparr>isCurrentSequenceManual := resendManualModeCheckbox s\<rparr>;
             s7 = (if isCurrentSequenceManual s6
                   then updateSenderStatus msgReadyToResend False s6
                   else updateSenderStatus msgResendingTransfer False s6)
         in displayNextChunk s7))"


text \<open>The two ways a sequence advances: the pending timer fires, or the Next button of
  \<^verbatim>\<open>main.ts\<close> is clicked.\<close>

definition timerFired :: "sender \<Rightarrow> sender" where
  "timerFired s =
     (case transferTimer s of
        None \<Rightarrow> s
      | Some cb \<Rightarrow>
          (let s1 = s\<lparr>transferTimer := None\<rparr> in
           case cb of
             CbDisplayNextChunk \<Rightarrow> displayNextChunk s1
           | CbHandlePostFinalState \<Rightarrow> handlePostFinalState s1
           | CbDisplaySpecificChunk \<Rightarrow> displaySpecificChunk s1
           | CbDisplayFinalConfirmationQR \<Rightarrow> displayFinalConfirmationQR s1))"

definition nextChunkBtnClick :: "sender \<Rightarrow> sender" where
  "nextChunkBtnClick s =
     (if senderTransferPhase s = S_transferring then displayNextChunk s
      else if senderTransferPhase s = S_sending_specific then displaySpecificChunk s
      else if senderTransferPhase s = S_final_qr_displayed then
        (if currentChunkIndex s > totalDataChunks s then handlePostFinalState s
         else displayFinalConfirmationQR s)
      else s)"

definition advance :: "sender \<Rightarrow> sender" where
  "advance s = (if isCurrentSequenceManual s then nextChunkBtnClick s else timerFired s)"

subsection \<open>The session and the invariants of the chunk store\<close>

text \<open>The variables that make up the receiver's session: what the handshake announced and
  the chunk store with its counter.\<close>

definition sessionOf ::
  "receiver \<Rightarrow> string option \<times> int option \<times> string option \<times> int option \<times> bool \<times> string option
     \<times> (int, string) jsMap \<times> int" where
  "sessionOf s =
     (expectedFileId s, expectedTotalChunks s, expectedArchiveName s, expectedDataSize s,
      expectedIsZip s, expectedOriginalFilename s, receivedChunksMap s, receivedChunkCount s)"

text \<open>The session as \<^verbatim>\<open>resetReceiverStateInternal\<close> leaves it.\<close>

definition sessionCleared :: "receiver \<Rightarrow> bool" where
  "sessionCleared s = (sessionOf s = (None, None, None, None, False, None, [], 0))"

text \<open>The counter is the number of entries of the map, whose keys are pairwise different.\<close>

definition storeInv :: "receiver \<Rightarrow> bool" where
  "storeInv s =
     (receivedChunkCount s = int (mapSize (receivedChunksMap s))
      \<and> distinct (map fst (receivedChunksMap s)))"

text \<open>The declared total (0 before a handshake), and the store's keys within \<open>1..total\<close>.\<close>

definition declaredTotal :: "receiver \<Rightarrow> int" where
  "declaredTotal s = (case expectedTotalChunks s of None \<Rightarrow> 0 | Some n \<Rightarrow> n)"

definition storeBounded :: "receiver \<Rightarrow> bool" where
  "storeBounded s =
     (0 \<le> declaredTotal s
      \<and> list_all (\<lambda>k. 1 \<le> k \<and> k \<le> declaredTotal s) (map fst (receivedChunksMap s)))"

definition chunkStoreOk :: "receiver \<Rightarrow> bool" where
  "chunkStoreOk s = (storeInv s \<and> storeBounded s)"

text \<open>The buffer \<^verbatim>\<open>verifyAndDownload\<close> holds when it reaches the checksum comparison:
  the file information is there, the counter equals the total, the chunks \<open>1..total\<close>
  assemble, and the decoded buffer has the announced size. \<open>None\<close> when one of the earlier
  steps fails.\<close>

definition bufferToVerify :: "browser \<Rightarrow> receiver \<Rightarrow> byte list option" where
  "bufferToVerify env s =
     (case (expectedTotalChunks s, expectedDataSize s, expectedArchiveName s) of
        (Some totalChunks, Some dataSize, Some archiveName) \<Rightarrow>
          if receivedChunkCount s \<noteq> totalChunks then None
          else
            (case assembleChunks (receivedChunksMap s) [1..totalChunks] [] of
               Inl i \<Rightarrow> None
             | Inr chunkArray \<Rightarrow>
                 (let buf = base64ToArrayBuffer env (concat chunkArray)
                  in if int (length buf) \<noteq> dataSize then None else Some buf))
      | _ \<Rightarrow> None)"

text \<open>While the receiver waits for a handshake it remembers no file id.\<close>

definition noSessionWhileWaiting :: "receiver \<Rightarrow> bool" where
  "noSessionWhileWaiting s = (receiverState s = R_waiting_handshake \<longrightarrow> expectedFileId s = None)"

subsection \<open>Data packets on the channel\<close>

text \<open>
  The Data packet the sender builds for sequence number \<open>i\<close> (\<^verbatim>\<open>displayNextChunk\<close>,
  \<^verbatim>\<open>displaySpecificChunk\<close>): version, file id, type \<^verbatim>\<open>"d"\<close>, the number and the chunk the
  sender holds for it. \<open>deliver\<close> lets the receiver scan such packets in the order of a list
  of sequence numbers, which may repeat and skip numbers.
\<close>

definition dataPacket :: "string \<Rightarrow> (int \<Rightarrow> string) \<Rightarrow> int \<Rightarrow> qrPayload" where
  "dataPacket fileId chunkOf i =
     \<lparr>p_v = JNumber PROTOCOL_VERSION, p_fid = JString fileId, p_typ = JString ''d'',
      p_nam = JUndefined, p_siz = JUndefined, p_tot = JUndefined, p_zip = JUndefined,
      p_ofn = JUndefined, p_seq = JNumber i, p_dat = JString (chunkOf i), p_chk = JUndefined\<rparr>"

definition deliver ::
  "browser \<Rightarrow> string \<Rightarrow> (int \<Rightarrow> string) \<Rightarrow> int list \<Rightarrow> receiver \<Rightarrow> receiver" where
  "deliver env fileId chunkOf numbers s =
     receiverRun env (map (\<lambda>i. EvScanResult (Payload (dataPacket fileId chunkOf i))) numbers) s"

text \<open>The receiver is taking Data packets: one of the three states after a handshake.\<close>

definition takingData :: "receiver \<Rightarrow> bool" where
  "takingData s =
     (receiverState s = R_receiving_data \<or> receiverState s = R_waiting_missing
      \<or> receiverState s = R_waiting_final)"

text \<open>The Final packet of a transfer, and the Handshake packet that announces it.\<close>

definition finalPacket :: "string \<Rightarrow> string \<Rightarrow> qrPayload" where
  "finalPacket fileId checksum =
     \<lparr>p_v = JNumber PROTOCOL_VERSION, p_fid = JString fileId, p_typ = JString ''f'',
      p_nam = JUndefined, p_siz = JUndefined, p_tot = JUndefined, p_zip = JUndefined,
      p_ofn = JUndefined, p_seq = JUndefined, p_dat = JUndefined, p_chk = JString checksum\<rparr>"

definition handshakePacket :: "string \<Rightarrow> string \<Rightarrow> int \<Rightarrow> int \<Rightarrow> qrPayload" where
  "handshakePacket fileId name byteLength totalChunks =
     \<lparr>p_v = JNumber PROTOCOL_VERSION, p_fid = JString fileId, p_typ = JString ''h'',
      p_nam = JString name, p_siz = JNumber byteLength, p_tot = JNumber totalChunks,
      p_zip = JBool True, p_ofn = JUndefined, p_seq = JUndefined, p_dat = JUndefined,
      p_chk = JUndefined\<rparr>"

text \<open>A browser for the examples: \<^verbatim>\<open>atob\<close> reads every character as one byte, and
  \<^verbatim>\<open>decodeURIComponent\<close> finds nothing to decode.\<close>

definition exampleBrowser :: browser where
  "exampleBrowser =
     \<lparr>atob = (\<lambda>text. Some (map (\<lambda>c. of_nat (of_char c)) text)),
      decodeURIComponent = (\<lambda>text. Some text)\<rparr>"

text \<open>
  An example session: the receiver is started, scans the handshake of a transfer of five
  chunks of four characters each, and then the Data packets 5, 1, 3 and 1 again, so that
  chunks 2 and 4 are missing.
\<close>

definition exampleChunk :: "int \<Rightarrow> string" where
  "exampleChunk i = ''QUJD''"

definition exampleHandshaken :: receiver where
  "exampleHandshaken =
     receiverRun exampleBrowser
       [EvStartScan, EvScannerStarted,
        EvScanResult (Payload (handshakePacket ''fid_1'' ''transfer_archive.zip'' 20 5))]
       initialReceiver"

definition examplePartial :: receiver where
  "examplePartial = deliver exampleBrowser ''fid_1'' exampleChunk [5, 1, 3, 1] exampleHandshaken"

text \<open>The user then stops the scanner and starts it again, in the middle of the
  transfer.\<close>

definition exampleRestarted :: receiver where
  "exampleRestarted =
     receiverRun exampleBrowser [EvStopScan, EvStartScan, EvScannerStarted] examplePartial"

text \<open>Or the user only stops the scanner: the state stays \<^verbatim>\<open>receiving_data\<close>.\<close>

definition exampleStopped :: receiver where
  "exampleStopped = receiverRun exampleBrowser [EvStopScan] examplePartial"

text \<open>The example session once the chunks 2 and 4 have arrived as well.\<close>

definition exampleComplete :: receiver where
  "exampleComplete = deliver exampleBrowser ''fid_1'' exampleChunk [2, 4] examplePartial"




text \<open>
  An example sender at the resend options: a buffer of 153 zero bytes, whose Base64 text is
  204 times the letter \<^verbatim>\<open>A\<close>, split into chunks of 100, 100 and 4 characters, has been sent
  in a complete main sequence under the file id \<^verbatim>\<open>fid_1\<close>; the user has typed \<^verbatim>\<open>3,3,1\<close>
  into the field of the specific resend, and ticked its manual-mode box or not.
\<close>

definition examplePostFinal :: "bool \<Rightarrow> sender" where
  "examplePostFinal manual =
     \<lparr>filesToSend = [''notes.txt'', ''plan.txt''], isSingleFileOriginal = False,
      originalSingleFilename = None,
      dataToSendBuffer = Some (replicate 153 0),
      base64Data = replicate 204 CHR ''A'',
      chunks = [replicate 100 CHR ''A'', replicate 100 CHR ''A'', replicate 4 CHR ''A''],
      currentChunkIndex = 4, totalDataChunks = 3, transferFileId = ''fid_1'',
      transferTimer = None, dataToSendChecksum = ''0000'', senderTransferPhase = S_post_final,
      specificChunksToSend = [], specificChunkSendIndex = 0, totalStepsInCurrentSequence = 5,
      isCurrentSequenceManual = False, errorCorrectionLevelSelect = ''H'',
      chunkSizeInput = ''100'', manualModeCheckbox = False, resendManualModeCheckbox = manual,
      specificChunksInput = ''3,3,1'', senderStatus = ''Status: '' @ msgSequenceComplete,
      senderStatusIsError = False, sendSpecificStatus = [],
      qrCodeContainer = Some (finalPayloadString ''fid_1'' ''0000''),
      displayedPayloads =
        [handshakePayloadString ''fid_1'' ''transfer_archive.zip'' 153 3 None,
         dataPayloadString ''fid_1'' 1 (replicate 100 CHR ''A''),
         dataPayloadString ''fid_1'' 2 (replicate 100 CHR ''A''),
         dataPayloadString ''fid_1'' 3 (replicate 4 CHR ''A''),
         finalPayloadString ''fid_1'' ''0000'']\<rparr>"

section \<open>Properties\<close>

subsection \<open>The chunk splitter\<close>

lemma substring_take_drop:
  "a \<le> b \<Longrightarrow> b \<le> length s \<Longrightarrow> substring s a b = take (b - a) (drop a s)"
  by (simp add: substring_def Let_def min_def max_def)

lemma ceil_div_step:
  fixes K n :: nat
  assumes "0 < K" "0 < n"
  shows "(n + K - 1) div K = Suc ((n - min K n + K - 1) div K)"
proof (cases "K \<le> n")
  case True
  then have "n + K - 1 = (n - K + K - 1) + K" using assms by simp
  then have "(n + K - 1) div K = (n - K + K - 1) div K + 1"
    using assms by (metis div_add_self2 less_numeral_extra(3))
  with True show ?thesis by (simp add: min_def)
next
  case False
  then have "n < K" by simp
  then have a: "(n + K - 1) div K = 1"
    using assms by (simp add: div_nat_eqI)
  have b: "(n - min K n + K - 1) div K = 0"
    using \<open>n < K\<close> assms by (simp add: min_def)
  show ?thesis using a b by simp
qed

text \<open>The loop from any start index: it returns, and what it appends is the rest of the
  data cut into non-empty pieces of at most \<open>K\<close> characters.\<close>

lemma splitLoop_general:
  assumes "0 < K"
  shows "\<exists>cs. splitLoop S K i acc = Some (acc @ cs)
           \<and> (\<forall>c \<in> set cs. length c \<le> K \<and> c \<noteq> [])
           \<and> concat cs = drop i S
           \<and> length cs = (length S - i + K - 1) div K"
proof (induction "length S - i" arbitrary: i acc rule: less_induct)
  case less
  show ?case
  proof (cases "i < length S")
    case False
    then show ?thesis using assms by (simp add: splitLoop.simps)
  next
    case True
    define L where "L = min K (length S - i)"
    define c where "c = substring S i (i + L)"
    have Lpos: "0 < L" using True assms by (simp add: L_def)
    have Lle: "i + L \<le> length S" using True by (simp add: L_def)
    have c_eq: "c = take L (drop i S)"
      unfolding c_def using Lle by (simp add: substring_take_drop)
    have c_len: "length c = L" using Lle by (simp add: c_eq)
    have "length S - (i + L) < length S - i" using True Lpos by simp
    from less[OF this, of "acc @ [c]"]
    obtain cs' where step: "splitLoop S K (i + L) (acc @ [c]) = Some ((acc @ [c]) @ cs')"
      and small: "\<forall>c \<in> set cs'. length c \<le> K \<and> c \<noteq> []"
      and cat: "concat cs' = drop (i + L) S"
      and cnt: "length cs' = (length S - (i + L) + K - 1) div K"
      by blast
    have unfold: "splitLoop S K i acc = splitLoop S K (i + L) (acc @ [c])"
      using True by (subst splitLoop.simps) (simp add: Let_def L_def c_def)
    have "concat (c # cs') = drop i S"
      using cat by (simp add: c_eq add.commute) (metis append_take_drop_id drop_drop)
    moreover have "length (c # cs') = (length S - i + K - 1) div K"
    proof -
      have "0 < length S - i" using True by simp
      from ceil_div_step[OF assms this] show ?thesis
        using cnt by (simp add: L_def)
    qed
    moreover have "\<forall>x \<in> set (c # cs'). length x \<le> K \<and> x \<noteq> []"
      using small c_len Lpos by (auto simp: L_def)
    ultimately show ?thesis using unfold step by auto
  qed
qed

text \<open>
  Claim C1. For every string \<open>S\<close> and every chunk size \<open>K > 0\<close> the splitting loop of
  \<^verbatim>\<open>prepareChunks\<close>, started as the code starts it (index 0, no chunks), returns a list of
  chunks such that every chunk has at most \<open>K\<close> characters, the chunks concatenated in
  order are \<open>S\<close>, their number is \<open>\<lceil>length S / K\<rceil>\<close> (written \<open>(length S + K - 1) div K\<close>),
  and the list is empty exactly when \<open>S\<close> is.
\<close>

theorem splitLoop_chunks:
  assumes "0 < K"
  shows "\<exists>cs. splitLoop S K 0 [] = Some cs
           \<and> (\<forall>c \<in> set cs. length c \<le> K)
           \<and> concat cs = S
           \<and> length cs = (length S + K - 1) div K
           \<and> (cs = [] \<longleftrightarrow> S = [])"
proof -
  from splitLoop_general[OF assms, of S 0 "[]"]
  obtain cs where run: "splitLoop S K 0 [] = Some cs"
    and small: "\<forall>c \<in> set cs. length c \<le> K \<and> c \<noteq> []"
    and cat: "concat cs = S"
    and cnt: "length cs = (length S + K - 1) div K"
    by auto
  have "cs = [] \<longleftrightarrow> S = []"
    using cat small by (cases cs) auto
  with run small cat cnt show ?thesis by blast
qed

theorem splitLoop_chunks_witness:
  "(0::nat) < 3
   \<and> (\<exists>cs. splitLoop ''abcdefgh'' 3 0 [] = Some cs \<and> concat cs = ''abcdefgh''
            \<and> length cs = 3 \<and> cs \<noteq> [])"
  using splitLoop_chunks[of 3 "''abcdefgh''"] by auto

subsection \<open>The missing-chunk ranges\<close>

lemma formatLoop_rangeLoop:
  "formatLoop ms a b (map (\<lambda>(x, y). rangeText x y) acc)
     = map (\<lambda>(x, y). rangeText x y) (rangeLoop ms a b acc)"
proof (induction ms arbitrary: a b acc)
  case Nil
  show ?case by simp
next
  case (Cons m ms)
  show ?case
  proof (cases "m = b + 1")
    case True
    then show ?thesis using Cons.IH[of a m acc] by simp
  next
    case False
    have "formatLoop ms m m (map (\<lambda>(x, y). rangeText x y) (acc @ [(a, b)]))
            = map (\<lambda>(x, y). rangeText x y) (rangeLoop ms m m (acc @ [(a, b)]))"
      by (rule Cons.IH)
    with False show ?thesis by simp
  qed
qed

lemma formatMissingChunks_ranges:
  "missing \<noteq> [] \<Longrightarrow>
   formatMissingChunks missing
     = joinStr '', '' (map (\<lambda>(x, y). rangeText x y) (missingRanges missing))"
proof -
  assume "missing \<noteq> []"
  then have "sort missing \<noteq> []" by (metis length_0_conv length_sort)
  then obtain m0 rest where s: "sort missing = m0 # rest" by (cases "sort missing") auto
  show ?thesis
    using formatLoop_rangeLoop[of rest m0 m0 "[]"]
    by (simp add: formatMissingChunks_def missingRanges_def s)
qed

lemma upto_snoc: "(a::int) \<le> b + 1 \<Longrightarrow> [a..b + 1] = [a..b] @ [b + 1]"
  by (simp add: upto_rec2)

lemma separated_Cons:
  "R \<noteq> [] \<Longrightarrow> separated ((a, b) # R) = (a \<le> b \<and> b + 1 < fst (hd R) \<and> separated R)"
  by (cases R) auto

text \<open>On a strictly ascending input the pass yields ranges that cover exactly the input
  and are separated; the first one starts where the pass started.\<close>

lemma rangeLoop_spec:
  "a \<le> b \<Longrightarrow> sorted_wrt (<) (b # ms) \<Longrightarrow>
   \<exists>R. rangeLoop ms a b acc = acc @ R \<and> R \<noteq> [] \<and> fst (hd R) = a
       \<and> concat (map (\<lambda>(x, y). [x..y]) R) = [a..b] @ ms \<and> separated R"
proof (induction ms arbitrary: a b acc)
  case Nil
  then show ?case by simp
next
  case (Cons m ms)
  have bm: "b < m" and srt: "sorted_wrt (<) (m # ms)" using Cons.prems by auto
  show ?case
  proof (cases "m = b + 1")
    case True
    have "a \<le> m" using Cons.prems True by simp
    from Cons.IH[OF this srt, of acc]
    obtain R where R: "rangeLoop ms a m acc = acc @ R" "R \<noteq> []" "fst (hd R) = a"
      "concat (map (\<lambda>(x, y). [x..y]) R) = [a..m] @ ms" "separated R" by blast
    have "[a..m] = [a..b] @ [m]" using True Cons.prems upto_snoc by simp
    with R True show ?thesis by auto
  next
    case False
    from Cons.IH[OF order_refl srt, of "acc @ [(a, b)]"]
    obtain R where R: "rangeLoop ms m m (acc @ [(a, b)]) = (acc @ [(a, b)]) @ R" "R \<noteq> []"
      "fst (hd R) = m" "concat (map (\<lambda>(x, y). [x..y]) R) = [m..m] @ ms" "separated R"
      by blast
    have "separated ((a, b) # R)"
      using R False bm Cons.prems by (simp add: separated_Cons)
    with R False show ?thesis
      by (intro exI[of _ "(a, b) # R"]) simp
  qed
qed

lemma missingRanges_spec:
  assumes "distinct missing"
  shows "concat (map (\<lambda>(x, y). [x..y]) (missingRanges missing)) = sort missing
         \<and> separated (missingRanges missing)"
proof (cases "sort missing")
  case Nil
  then show ?thesis by (simp add: missingRanges_def)
next
  case (Cons m0 rest)
  have "sorted_wrt (<) (sort missing)"
    using assms by (simp add: strict_sorted_iff)
  then have "sorted_wrt (<) (m0 # rest)" using Cons by simp
  from rangeLoop_spec[OF order_refl this, of "[]"] Cons
  show ?thesis by (auto simp: missingRanges_def)
qed

text \<open>
  Claim C9. \<^verbatim>\<open>formatMissingChunks\<close> gives \<open>1-3, 5, 7-8\<close> for \<open>[1,2,3,5,7,8]\<close>, \<open>None\<close> for the
  empty list and \<open>4\<close> for \<open>[4]\<close>. In general, for a non-empty list the result is the ranges
  of \<open>missingRanges\<close>, each rendered as \<open>a\<close> or \<open>a-b\<close> and joined by a comma and a space; and
  for a list without repetitions these ranges, expanded, are exactly the sorted list, each
  range is non-empty, and consecutive ranges are in ascending order with a gap between
  them (so each range is a maximal run of consecutive numbers).
\<close>

theorem formatMissingChunks_compresses:
  "formatMissingChunks [1, 2, 3, 5, 7, 8] = ''1-3, 5, 7-8''
   \<and> formatMissingChunks [] = ''None''
   \<and> formatMissingChunks [4] = ''4''
   \<and> (\<forall>missing. missing \<noteq> [] \<longrightarrow>
         formatMissingChunks missing
           = joinStr '', '' (map (\<lambda>(x, y). rangeText x y) (missingRanges missing)))
   \<and> (\<forall>missing. distinct missing \<longrightarrow>
         concat (map (\<lambda>(x, y). [x..y]) (missingRanges missing)) = sort missing
         \<and> separated (missingRanges missing))"
proof -
  have "formatMissingChunks [1, 2, 3, 5, 7, 8] = ''1-3, 5, 7-8''"
    by (simp add: formatMissingChunks_def rangeText_def showInt_def digitChar_def)
  moreover have "formatMissingChunks [] = ''None''"
    by (simp add: formatMissingChunks_def)
  moreover have "formatMissingChunks [4] = ''4''"
    by (simp add: formatMissingChunks_def rangeText_def showInt_def digitChar_def)
  ultimately show ?thesis
    using formatMissingChunks_ranges missingRanges_spec by blast
qed

theorem formatMissingChunks_compresses_witness:
  "formatMissingChunks [8, 2, 7] = ''2, 7-8''
   \<and> concat (map (\<lambda>(x, y). [x..y]) (missingRanges [8, 2, 7])) = [2, 7, 8]
   \<and> separated (missingRanges [8, 2, 7])"
proof -
  have r: "missingRanges [8, 2, 7] = [(2, 2), (7, 8)]"
    by (simp add: missingRanges_def)
  have d: "distinct [8, 2, 7 :: int]" and n: "[8, 2, 7 :: int] \<noteq> []" by simp_all
  from formatMissingChunks_compresses n d
  have "formatMissingChunks [8, 2, 7]
          = joinStr '', '' (map (\<lambda>(x, y). rangeText x y) (missingRanges [8, 2, 7]))"
    and "concat (map (\<lambda>(x, y). [x..y]) (missingRanges [8, 2, 7])) = sort [8, 2, 7]"
    and "separated (missingRanges [8, 2, 7])"
    by blast+
  then show ?thesis
    by (simp add: r rangeText_def showInt_def digitChar_def)
qed

subsection \<open>The checksum\<close>

lemma checksumLoop_sum:
  "s < 65536 \<Longrightarrow> checksumLoop bs s = (s + sum_list (map unat bs)) mod 65536"
proof (induction bs arbitrary: s)
  case Nil
  then show ?case by (simp add: checksumLoop_def)
next
  case (Cons b bs)
  have "checksumLoop (b # bs) s = checksumLoop bs ((s + unat b) mod 65536)"
    by (simp add: checksumLoop_def)
  also have "\<dots> = ((s + unat b) mod 65536 + sum_list (map unat bs)) mod 65536"
    by (rule Cons.IH) simp
  also have "\<dots> = (s + sum_list (map unat (b # bs))) mod 65536"
    by (simp add: mod_add_left_eq add.assoc)
  finally show ?case .
qed

lemma toStringRadix16_small: "n < 16 \<Longrightarrow> toStringRadix 16 n = [digitChar n]"
  by simp

lemma toStringRadix16_step:
  "16 \<le> n \<Longrightarrow> toStringRadix 16 n = toStringRadix 16 (n div 16) @ [digitChar (n mod 16)]"
  by simp

lemma digitChar_0: "digitChar 0 = CHR ''0''"
  by (simp add: digitChar_def)

lemma padStart4:
  "padStart 4 c [w] = [c, c, c, w]"
  "padStart 4 c [x, w] = [c, c, x, w]"
  "padStart 4 c [y, x, w] = [c, y, x, w]"
  "padStart 4 c [z, y, x, w] = [z, y, x, w]"
  by (simp_all add: padStart_def eval_nat_numeral)

lemma hex4_padStart:
  assumes "n < 65536"
  shows "padStart 4 CHR ''0'' (toStringRadix 16 n) = hex4 n"
proof -
  consider "n < 16" | "16 \<le> n" "n < 256" | "256 \<le> n" "n < 4096" | "4096 \<le> n"
    by linarith
  then show ?thesis
  proof cases
    case 1
    then have "toStringRadix 16 n = [digitChar n]" by (rule toStringRadix16_small)
    moreover have "n div 4096 = 0" "n div 256 = 0" "n div 16 = 0" "n mod 16 = n"
      using 1 by simp_all
    ultimately show ?thesis by (simp only: padStart4 hex4_def digitChar_0 mod_0)
  next
    case 2
    then have d: "n div 16 < 16" by simp
    have "toStringRadix 16 n = [digitChar (n div 16), digitChar (n mod 16)]"
      using 2 d by (simp only: toStringRadix16_step toStringRadix16_small append_Cons append_Nil)
    moreover have "n div 4096 = 0" "n div 256 = 0" "n div 16 mod 16 = n div 16"
      using 2 by simp_all
    ultimately show ?thesis by (simp only: padStart4 hex4_def digitChar_0 mod_0)
  next
    case 3
    then have d: "16 \<le> n div 16" "n div 16 div 16 < 16" "16 \<le> n" by simp_all
    have e: "n div 16 div 16 = n div 256" by (simp add: div_mult2_eq[symmetric])
    have "toStringRadix 16 n
            = [digitChar (n div 16 div 16), digitChar (n div 16 mod 16), digitChar (n mod 16)]"
      using d by (simp only: toStringRadix16_step toStringRadix16_small append_Cons append_Nil)
    moreover have "n div 4096 = 0" "n div 256 mod 16 = n div 256"
      using 3 by simp_all
    ultimately show ?thesis by (simp only: padStart4 hex4_def digitChar_0 mod_0 e)
  next
    case 4
    then have d: "16 \<le> n div 16" "16 \<le> n div 16 div 16" "n div 16 div 16 div 16 < 16"
      "16 \<le> n"
      using assms by simp_all
    have e: "n div 16 div 16 = n div 256" "n div 256 div 16 = n div 4096"
      by (simp_all add: div_mult2_eq[symmetric])
    have "toStringRadix 16 n
            = [digitChar (n div 16 div 16 div 16), digitChar (n div 16 div 16 mod 16),
               digitChar (n div 16 mod 16), digitChar (n mod 16)]"
      using d by (simp only: toStringRadix16_step toStringRadix16_small append_Cons append_Nil)
    moreover have "n div 4096 mod 16 = n div 4096"
      using assms by simp
    ultimately show ?thesis by (simp only: padStart4 hex4_def e)
  qed
qed

lemma digitChar_lowerHex: "d < 16 \<Longrightarrow> isLowerHex (digitChar d)"
  unfolding isLowerHex_def digitChar_def by (rule nth_mem) simp

lemma calculateChecksum_hex4:
  "calculateChecksum buffer = hex4 (sum_list (map unat buffer) mod 65536)"
  by (simp add: calculateChecksum_def checksumLoop_sum hex4_padStart del: toStringRadix.simps)

lemma hex4_shape: "length (hex4 n) = 4 \<and> list_all isLowerHex (hex4 n)"
  by (simp add: hex4_def digitChar_lowerHex)

subsection \<open>The chunk store\<close>

lemma sessionOf_updates [simp]:
  "sessionOf (s\<lparr>missingChunksInfoHidden := b\<rparr>) = sessionOf s"
  "sessionOf (s\<lparr>receiverDebug := d\<rparr>) = sessionOf s"
  "sessionOf (s\<lparr>pendingExtraction := x\<rparr>) = sessionOf s"
  "sessionOf (s\<lparr>cleanupTimer := t\<rparr>) = sessionOf s"
  "sessionOf (s\<lparr>isScanning := i\<rparr>) = sessionOf s"
  "sessionOf (s\<lparr>qrScanner := q\<rparr>) = sessionOf s"
  by (simp_all add: sessionOf_def)

lemma sessionOf_updateReceiverStatus [simp]:
  "sessionOf (updateReceiverStatus m e s) = sessionOf s"
  by (simp add: sessionOf_def updateReceiverStatus_def setReceiverState_def Let_def)

lemma sessionOf_setReceiverState [simp]: "sessionOf (setReceiverState st s) = sessionOf s"
  by (simp add: sessionOf_def setReceiverState_def)

lemma sessionOf_stopScan [simp]: "sessionOf (stopScan s) = sessionOf s"
  by (simp add: stopScan_def Let_def)

lemma sessionOf_failVerification [simp]: "sessionOf (failVerification m s) = sessionOf s"
  by (simp add: failVerification_def)

lemma sessionOf_displayMissingChunks [simp]: "sessionOf (displayMissingChunks s) = sessionOf s"
proof -
  have "\<And>a b c. sessionOf (s\<lparr>missingChunksCount := a, missingChunksList := b,
          missingChunksInfoHidden := c\<rparr>) = sessionOf s"
    by (simp add: sessionOf_def)
  then show ?thesis
    by (simp add: displayMissingChunks_def Let_def split: option.splits)
qed

lemma sessionOf_triggerFileDownload [simp]: "sessionOf (triggerFileDownload b f s) = sessionOf s"
  by (simp add: sessionOf_def triggerFileDownload_def)

lemma sessionOf_postDownloadCleanup [simp]: "sessionOf (postDownloadCleanup f s) = sessionOf s"
  by (simp add: postDownloadCleanup_def)

lemma sessionOf_scannerStarted [simp]: "sessionOf (scannerStarted s) = sessionOf s"
  by (simp add: scannerStarted_def)

lemma sessionOf_updateReceiverUI [simp]: "sessionOf (updateReceiverUI s) = sessionOf s"
proof -
  have "\<And>s a b. sessionOf (s\<lparr>receiverDebug := a, missingChunksInfoHidden := b\<rparr>) = sessionOf s"
    by (simp add: sessionOf_def)
  then show ?thesis by (simp add: updateReceiverUI_def Let_def)
qed

lemma sessionOf_verifyAndDownload [simp]: "sessionOf (verifyAndDownload env fp s) = sessionOf s"
  by (simp add: verifyAndDownload_def Let_def split: option.splits sum.splits)

lemma sessionOf_extractionDone [simp]: "sessionOf (extractionDone outcome s) = sessionOf s"
  by (simp add: extractionDone_def Let_def split: option.splits zipOutcome.splits)



lemma sessionOf_fields:
  assumes "sessionOf s' = sessionOf s"
  shows "expectedFileId s' = expectedFileId s" "expectedTotalChunks s' = expectedTotalChunks s"
    "expectedArchiveName s' = expectedArchiveName s" "expectedDataSize s' = expectedDataSize s"
    "expectedIsZip s' = expectedIsZip s"
    "expectedOriginalFilename s' = expectedOriginalFilename s"
    "receivedChunksMap s' = receivedChunksMap s" "receivedChunkCount s' = receivedChunkCount s"
  using assms by (simp_all add: sessionOf_def)

lemma chunkStoreOk_same: "sessionOf s' = sessionOf s \<Longrightarrow> chunkStoreOk s \<Longrightarrow> chunkStoreOk s'"
  by (simp add: chunkStoreOk_def storeInv_def storeBounded_def declaredTotal_def sessionOf_def)

lemma chunkStoreOk_cleared: "sessionCleared s \<Longrightarrow> chunkStoreOk s"
  by (simp add: chunkStoreOk_def sessionCleared_def sessionOf_def storeInv_def storeBounded_def
      declaredTotal_def mapSize_def)

lemma chunkStoreOk_step:
  "chunkStoreOk s \<Longrightarrow> sessionOf s' = sessionOf s \<or> sessionCleared s' \<Longrightarrow> chunkStoreOk s'"
  using chunkStoreOk_same chunkStoreOk_cleared by blast

lemma sessionOf_reset [simp]:
  "sessionOf (resetReceiverStateInternal s) = (None, None, None, None, False, None, [], 0)"
  by (simp add: sessionOf_def resetReceiverStateInternal_def)

lemma sessionCleared_reset [simp]: "sessionCleared (resetReceiverStateInternal s)"
  by (simp add: sessionCleared_def)

lemma startScan_session:
  "sessionOf (startScan s) = sessionOf s \<or> sessionCleared (startScan s)"
  by (simp add: startScan_def Let_def sessionCleared_def)

lemma startScan_cleared:
  "\<not> isScanning s \<Longrightarrow> sessionCleared (startScan s)"
  by (simp add: startScan_def Let_def sessionCleared_def)

lemma scannerStartFailed_cleared [simp]: "sessionCleared (scannerStartFailed err s)"
  by (simp add: scannerStartFailed_def Let_def sessionCleared_def)

lemma cleanupFired_session:
  "sessionOf (cleanupFired s) = sessionOf s \<or> sessionCleared (cleanupFired s)"
  by (simp add: cleanupFired_def sessionCleared_def split: option.splits)

lemma mapSet_new: "\<not> mapHas m k \<Longrightarrow> mapSet m k v = m @ [(k, v)]"
  by (induction m) (auto simp: mapHas_def)

lemma storeInv_addReceivedChunk: "storeInv s \<Longrightarrow> storeInv (addReceivedChunk sq d s)"
  by (auto simp: storeInv_def addReceivedChunk_def mapSize_def mapSet_new mapHas_def)

lemma storeInv_clearReceivedChunks [simp]: "storeInv (clearReceivedChunks s)"
  by (simp add: storeInv_def clearReceivedChunks_def mapSize_def)

lemma storeInv_reset [simp]: "storeInv (resetReceiverStateInternal s)"
  by (simp add: storeInv_def resetReceiverStateInternal_def mapSize_def)

lemma processHandshake_store:
  "chunkStoreOk (processHandshake env h s) \<or> sessionOf (processHandshake env h s) = sessionOf s"
  by (simp add: processHandshake_def Let_def chunkStoreOk_def storeInv_def storeBounded_def
      declaredTotal_def clearReceivedChunks_def setExpectedFileId_def setExpectedData_def
      setReceiverState_def updateReceiverStatus_def mapSize_def sessionOf_def)

lemma chunkStoreOk_add_new:
  assumes "chunkStoreOk s" "1 \<le> sq" "sq \<le> declaredTotal s"
    "\<not> mapHas (receivedChunksMap s) sq"
  shows "chunkStoreOk (addReceivedChunk sq d s)"
  using assms
  by (auto simp: chunkStoreOk_def storeInv_def storeBounded_def declaredTotal_def
      addReceivedChunk_def mapSize_def mapSet_new mapHas_def)

lemma processDataChunk_session:
  "sessionOf (processDataChunk p s) = sessionOf s
   \<or> (1 \<le> numberOf (p_seq p) \<and> numberOf (p_seq p) \<le> declaredTotal s
       \<and> \<not> mapHas (receivedChunksMap s) (numberOf (p_seq p))
       \<and> sessionOf (processDataChunk p s)
           = sessionOf (addReceivedChunk (numberOf (p_seq p)) (stringOf (p_dat p)) s))"
  by (simp add: processDataChunk_def declaredTotal_def Let_def)

lemma processDataChunk_store:
  assumes "chunkStoreOk s"
  shows "chunkStoreOk (processDataChunk p s)"
proof -
  from processDataChunk_session[of p s] show ?thesis
  proof
    assume "sessionOf (processDataChunk p s) = sessionOf s"
    then show ?thesis using assms by (rule chunkStoreOk_same)
  next
    assume a: "1 \<le> numberOf (p_seq p) \<and> numberOf (p_seq p) \<le> declaredTotal s
       \<and> \<not> mapHas (receivedChunksMap s) (numberOf (p_seq p))
       \<and> sessionOf (processDataChunk p s)
           = sessionOf (addReceivedChunk (numberOf (p_seq p)) (stringOf (p_dat p)) s)"
    then have "chunkStoreOk (addReceivedChunk (numberOf (p_seq p)) (stringOf (p_dat p)) s)"
      using chunkStoreOk_add_new[OF assms] by blast
    with a show ?thesis using chunkStoreOk_same by blast
  qed
qed

lemma checkForMissing_session:
  "sessionOf (checkForMissingChunksAndFinalize env fp s) = sessionOf s
   \<or> sessionCleared (checkForMissingChunksAndFinalize env fp s)"
proof -
  have "\<And>s'. sessionOf s' = sessionOf s \<Longrightarrow>
      sessionOf (startScan s') = sessionOf s \<or> sessionCleared (startScan s')"
    using startScan_session by metis
  then show ?thesis
    by (simp add: checkForMissingChunksAndFinalize_def Let_def split: option.splits)
qed

lemma handleFinalPacket_session:
  "sessionOf (handleFinalPacket env fp s) = sessionOf s
   \<or> sessionCleared (handleFinalPacket env fp s)"
proof -
  have "\<And>s'. sessionOf s' = sessionOf s \<Longrightarrow>
      sessionOf (checkForMissingChunksAndFinalize env fp s') = sessionOf s
      \<or> sessionCleared (checkForMissingChunksAndFinalize env fp s')"
    using checkForMissing_session by metis
  then show ?thesis
    by (simp add: handleFinalPacket_def)
qed

lemma handleScanResult_cases [consumes 0, case_names ignored debug version handshake final data]:
  assumes "P s"
    and "\<And>x. P (s\<lparr>receiverDebug := x\<rparr>)"
    and "\<And>m. P (stopScan (updateReceiverStatus m True s))"
    and "\<And>p. r = Payload p \<Longrightarrow> structureOk p \<Longrightarrow> p_v p = JNumber PROTOCOL_VERSION \<Longrightarrow>
           receiverState s = R_waiting_handshake \<Longrightarrow> p_typ p = JString ''h'' \<Longrightarrow>
           P (processHandshake env p s)"
    and "\<And>p. r = Payload p \<Longrightarrow> structureOk p \<Longrightarrow> p_v p = JNumber PROTOCOL_VERSION \<Longrightarrow>
           acceptsScans (receiverState s) \<Longrightarrow>
           p_typ p = JString ''f'' \<Longrightarrow> strictEq (p_fid p) (expectedFileId s) \<Longrightarrow>
           P (handleFinalPacket env p s)"
    and "\<And>p. r = Payload p \<Longrightarrow> structureOk p \<Longrightarrow> p_v p = JNumber PROTOCOL_VERSION \<Longrightarrow>
           receiverState s = R_receiving_data \<or> receiverState s = R_waiting_missing
             \<or> receiverState s = R_waiting_final \<Longrightarrow>
           p_typ p = JString ''d'' \<Longrightarrow> strictEq (p_fid p) (expectedFileId s) \<Longrightarrow>
           P (processDataChunk p s)"
  shows "P (handleScanResult env r s)"
proof (cases r)
  case ParseError
  then show ?thesis by (simp add: handleScanResult_def assms(1,2))
next
  case NotAnObject
  then show ?thesis by (simp add: handleScanResult_def assms(1,2))
next
  case (Payload p)
  show ?thesis
  proof (cases "acceptsScans (receiverState s)")
    case False
    then show ?thesis by (simp add: handleScanResult_def assms(1))
  next
    case acc: True
    show ?thesis
    proof (cases "structureOk p")
      case False
      then show ?thesis using acc by (simp add: handleScanResult_def Payload assms(2))
    next
      case ok: True
      show ?thesis
      proof (cases "p_v p = JNumber PROTOCOL_VERSION")
        case False
        then show ?thesis using acc ok by (simp add: handleScanResult_def Payload assms(3))
      next
        case ver: True
        note h = assms(4)[OF Payload ok ver]
        note f = assms(5)[OF Payload ok ver acc]
        note d = assms(6)[OF Payload ok ver]
        have st: "receiverState s = R_waiting_handshake \<or> receiverState s = R_receiving_data
            \<or> receiverState s = R_waiting_missing \<or> receiverState s = R_waiting_final"
          using acc by (simp add: acceptsScans_def) blast
        show ?thesis
          unfolding handleScanResult_def Payload scan.case
          using acc ok ver st h f d assms(1) assms(2)
          by (auto split: if_splits)
      qed
    qed
  qed
qed


lemma handleScanResult_store:
  assumes "chunkStoreOk s"
  shows "chunkStoreOk (handleScanResult env r s)"
proof (rule handleScanResult_cases[where P = chunkStoreOk])
  show "chunkStoreOk s" by (rule assms)
  show "chunkStoreOk (s\<lparr>receiverDebug := x\<rparr>)" for x
    by (rule chunkStoreOk_same[OF _ assms]) simp
  show "chunkStoreOk (stopScan (updateReceiverStatus m True s))" for m
    by (rule chunkStoreOk_same[OF _ assms]) simp
  show "chunkStoreOk (processHandshake env p s)" for p
    using processHandshake_store[of env p s] assms chunkStoreOk_same by blast
  show "chunkStoreOk (handleFinalPacket env p s)" for p
    using chunkStoreOk_step[OF assms handleFinalPacket_session] .
  show "chunkStoreOk (processDataChunk p s)" for p
    using processDataChunk_store[OF assms] .
qed

lemma receiverStep_store:
  assumes "chunkStoreOk s"
  shows "chunkStoreOk (receiverStep env ev s)"
proof (cases ev)
  case EvStartScan
  then show ?thesis using chunkStoreOk_step[OF assms startScan_session] by simp
next
  case EvStopScan
  then show ?thesis using chunkStoreOk_same[OF sessionOf_stopScan assms] by simp
next
  case EvScannerStarted
  then show ?thesis using chunkStoreOk_same[OF sessionOf_scannerStarted assms] by simp
next
  case (EvScannerStartFailed err)
  then show ?thesis using chunkStoreOk_cleared[OF scannerStartFailed_cleared] by simp
next
  case (EvScanResult r)
  then show ?thesis using handleScanResult_store[OF assms] by simp
next
  case (EvExtractionDone outcome)
  then show ?thesis using chunkStoreOk_same[OF sessionOf_extractionDone assms] by simp
next
  case EvCleanupTimer
  then show ?thesis using chunkStoreOk_step[OF assms cleanupFired_session] by simp
qed

lemma initialReceiver_store: "chunkStoreOk initialReceiver"
  by (simp add: initialReceiver_def chunkStoreOk_def storeInv_def storeBounded_def
      declaredTotal_def mapSize_def)

lemma reachable_store: "reachable env s \<Longrightarrow> chunkStoreOk s"
  by (induction rule: reachable.induct) (simp_all add: initialReceiver_store receiverStep_store)

lemma receiverRun_store: "chunkStoreOk s \<Longrightarrow> chunkStoreOk (receiverRun env evs s)"
  unfolding receiverRun_def
  by (induction evs arbitrary: s) (simp_all add: receiverStep_store)

lemma reachable_run: "reachable env s \<Longrightarrow> reachable env (receiverRun env evs s)"
  unfolding receiverRun_def
  by (induction evs arbitrary: s) (simp_all add: reachable_step)

lemma chunkStoreOk_count_le:
  assumes "chunkStoreOk s"
  shows "receivedChunkCount s \<le> declaredTotal s"
proof -
  let ?ks = "map fst (receivedChunksMap s)"
  have d: "distinct ?ks" and c: "receivedChunkCount s = int (length ?ks)"
    using assms by (simp_all add: chunkStoreOk_def storeInv_def mapSize_def)
  have sub: "set ?ks \<subseteq> {1..declaredTotal s}" and nn: "0 \<le> declaredTotal s"
    using assms by (auto simp: chunkStoreOk_def storeBounded_def list_all_iff)
  have "length ?ks = card (set ?ks)" using distinct_card[OF d] by simp
  also have "\<dots> \<le> card {1..declaredTotal s}" using sub by (intro card_mono) simp_all
  also have "\<dots> = nat (declaredTotal s)" by simp
  finally show ?thesis using c nn by simp
qed

lemma storeInv_card:
  assumes "storeInv s"
  shows "receivedChunkCount s = int (card (dom (mapGet (receivedChunksMap s))))"
proof -
  have "dom (mapGet (receivedChunksMap s)) = set (map fst (receivedChunksMap s))"
    unfolding mapGet_def by (simp add: dom_map_of_conv_image_fst)
  moreover have "card (set (map fst (receivedChunksMap s))) = length (map fst (receivedChunksMap s))"
    using assms by (intro distinct_card) (simp add: storeInv_def)
  ultimately show ?thesis using assms by (simp add: storeInv_def mapSize_def)
qed

subsection \<open>The example session\<close>

lemmas receiver_defs = receiverRun_def startScan_def scannerStarted_def handleScanResult_def
  processHandshake_def resetReceiverStateInternal_def updateReceiverUI_def updateReceiverStatus_def
  setReceiverState_def initialReceiver_def handshakePacket_def acceptsScans_def structureOk_def
  clearReceivedChunks_def setExpectedFileId_def setExpectedData_def safeDecodeURIComponent_def
  exampleBrowser_def PROTOCOL_VERSION_def Let_def

lemma exampleHandshaken_fields:
  "receiverState exampleHandshaken = R_receiving_data"
  "isScanning exampleHandshaken" "qrScanner exampleHandshaken"
  "expectedFileId exampleHandshaken = Some ''fid_1''"
  "expectedTotalChunks exampleHandshaken = Some 5"
  "expectedDataSize exampleHandshaken = Some 20"
  "receivedChunksMap exampleHandshaken = []"
  "receivedChunkCount exampleHandshaken = 0"
  by (simp_all add: exampleHandshaken_def receiver_defs)

lemma exampleHandshaken_ok:
  "takingData exampleHandshaken" "chunkStoreOk exampleHandshaken"
  "declaredTotal exampleHandshaken = 5"
  by (simp_all add: takingData_def chunkStoreOk_def storeInv_def storeBounded_def
      declaredTotal_def mapSize_def exampleHandshaken_fields)

subsection \<open>The counter of the chunk store\<close>

text \<open>
  Claim C10. The three operations of \<^verbatim>\<open>state.ts\<close> that touch the chunk store keep the
  counter equal to the number of entries of the map: \<^verbatim>\<open>clearReceivedChunks\<close> and
  \<^verbatim>\<open>resetReceiverStateInternal\<close> establish it, \<^verbatim>\<open>addReceivedChunk\<close> preserves it. So it
  holds in every state the receiver reaches from its initial state, and there the counter that
  the completeness and verification checks read is the number of keys of the map.
\<close>

theorem chunkCount_matches_store:
  "storeInv (clearReceivedChunks s)
   \<and> storeInv (resetReceiverStateInternal s)
   \<and> (storeInv s \<longrightarrow> storeInv (addReceivedChunk sq d s))
   \<and> (reachable env s \<longrightarrow> storeInv s)
   \<and> (storeInv s \<longrightarrow>
        receivedChunkCount s = int (mapSize (receivedChunksMap s))
        \<and> receivedChunkCount s = int (card (dom (mapGet (receivedChunksMap s)))))"
proof -
  have "reachable env s \<longrightarrow> storeInv s"
    using reachable_store[of env s] by (simp add: chunkStoreOk_def)
  moreover have "storeInv s \<longrightarrow> receivedChunkCount s = int (mapSize (receivedChunksMap s))"
    by (simp add: storeInv_def)
  moreover have "storeInv s \<longrightarrow>
      receivedChunkCount s = int (card (dom (mapGet (receivedChunksMap s))))"
    by (simp add: storeInv_card)
  ultimately show ?thesis
    using storeInv_addReceivedChunk[of s sq d] by simp
qed

text \<open>The invariant on the initial receiver and after one insertion.\<close>

theorem chunkCount_matches_store_witness:
  "storeInv initialReceiver
   \<and> storeInv (addReceivedChunk 1 ''QUJD'' initialReceiver)
   \<and> receivedChunksMap (addReceivedChunk 1 ''QUJD'' initialReceiver) = [(1, ''QUJD'')]
   \<and> receivedChunkCount (addReceivedChunk 1 ''QUJD'' initialReceiver) = 1"
  using chunkCount_matches_store[of initialReceiver 1 "''QUJD''" exampleBrowser]
    chunkCount_matches_store[of "addReceivedChunk 1 ''QUJD'' initialReceiver" 1 "''QUJD''"
      exampleBrowser]
  by (simp add: storeInv_def initialReceiver_def addReceivedChunk_def mapHas_def mapSize_def)

subsection \<open>Delivery order and duplicates\<close>

lemma handleScanResult_dataPacket:
  assumes "takingData s" "expectedFileId s = Some fileId" "fileId \<noteq> []"
  shows "handleScanResult env (Payload (dataPacket fileId chunkOf i)) s
           = processDataChunk (dataPacket fileId chunkOf i) s"
  using assms
  by (auto simp: handleScanResult_def takingData_def acceptsScans_def structureOk_def
      dataPacket_def)

lemma receiverState_displayMissingChunks:
  "receiverState (displayMissingChunks s) = receiverState s
   \<or> receiverState (displayMissingChunks s) = R_waiting_final"
  by (simp add: displayMissingChunks_def Let_def updateReceiverStatus_def setReceiverState_def
      split: option.splits)

lemma takingData_displayMissingChunks:
  "takingData s \<Longrightarrow> takingData (displayMissingChunks s)"
  using receiverState_displayMissingChunks[of s] by (auto simp: takingData_def)

lemma takingData_processDataChunk:
  assumes "takingData s"
  shows "takingData (processDataChunk p s)"
proof -
  have u: "\<And>m x. takingData x \<Longrightarrow> takingData (updateReceiverStatus m False x)"
    by (simp add: takingData_def updateReceiverStatus_def)
  have a: "\<And>sq d. takingData (addReceivedChunk sq d s)"
    using assms by (simp add: takingData_def addReceivedChunk_def)
  have w: "\<And>x. takingData (setReceiverState R_waiting_final x)"
    by (simp add: takingData_def setReceiverState_def)
  have e: "\<And>x. takingData (s\<lparr>receiverDebug := x\<rparr>)"
    using assms by (simp add: takingData_def)
  show ?thesis
    unfolding processDataChunk_def Let_def
    by (simp add: u a w e takingData_displayMissingChunks)
qed

lemma processDataChunk_sessionOf:
  "sessionOf (processDataChunk p s)
     = (if isNumber (p_seq p) \<and> 1 \<le> numberOf (p_seq p) \<and> numberOf (p_seq p) \<le> declaredTotal s
           \<and> isString (p_dat p) \<and> stringOf (p_dat p) \<noteq> []
        then sessionOf (addReceivedChunk (numberOf (p_seq p)) (stringOf (p_dat p)) s)
        else sessionOf s)"
  by (auto simp: processDataChunk_def declaredTotal_def Let_def addReceivedChunk_def)


lemma mapHas_mapGet: "mapHas m k \<longleftrightarrow> mapGet m k \<noteq> None"
  by (simp add: mapHas_def mapGet_def map_of_eq_None_iff)

lemma mapGet_addReceivedChunk:
  "mapGet (receivedChunksMap (addReceivedChunk k v s)) k'
     = (case mapGet (receivedChunksMap s) k' of
          Some d \<Rightarrow> Some d
        | None \<Rightarrow> if k' = k then Some v else None)"
proof (cases "mapHas (receivedChunksMap s) k")
  case True
  then show ?thesis
    by (auto simp: addReceivedChunk_def mapHas_mapGet split: option.splits)
next
  case False
  then have "receivedChunksMap (addReceivedChunk k v s) = receivedChunksMap s @ [(k, v)]"
    by (simp add: addReceivedChunk_def mapSet_new)
  then show ?thesis
    by (auto simp: mapGet_def map_add_def split: option.splits)
qed

lemma dataPacket_fields [simp]:
  "p_seq (dataPacket fileId chunkOf i) = JNumber i"
  "p_dat (dataPacket fileId chunkOf i) = JString (chunkOf i)"
  by (simp_all add: dataPacket_def)

lemma addReceivedChunk_frame [simp]:
  "expectedTotalChunks (addReceivedChunk k v s) = expectedTotalChunks s"
  "expectedFileId (addReceivedChunk k v s) = expectedFileId s"
  by (simp_all add: addReceivedChunk_def)

lemma processDataChunk_frame:
  "expectedTotalChunks (processDataChunk p s) = expectedTotalChunks s"
  "expectedFileId (processDataChunk p s) = expectedFileId s"
  using processDataChunk_sessionOf[of p s]
  by (auto simp: sessionOf_def split: if_splits)

lemma mapGet_processDataChunk:
  "mapGet (receivedChunksMap (processDataChunk (dataPacket fileId chunkOf i) s)) k
     = (case mapGet (receivedChunksMap s) k of
          Some d \<Rightarrow> Some d
        | None \<Rightarrow>
            if k = i \<and> 1 \<le> i \<and> i \<le> declaredTotal s \<and> chunkOf i \<noteq> []
            then Some (chunkOf i) else None)"
proof -
  let ?p = "dataPacket fileId chunkOf i"
  show ?thesis
  proof (cases "1 \<le> i \<and> i \<le> declaredTotal s \<and> chunkOf i \<noteq> []")
    case True
    then have "sessionOf (processDataChunk ?p s) = sessionOf (addReceivedChunk i (chunkOf i) s)"
      by (simp add: processDataChunk_sessionOf)
    then have "receivedChunksMap (processDataChunk ?p s)
                 = receivedChunksMap (addReceivedChunk i (chunkOf i) s)"
      by (rule sessionOf_fields)
    then show ?thesis using True by (simp add: mapGet_addReceivedChunk split: option.splits)
  next
    case False
    then have "sessionOf (processDataChunk ?p s) = sessionOf s"
      by (auto simp: processDataChunk_sessionOf)
    then have "receivedChunksMap (processDataChunk ?p s) = receivedChunksMap s"
      by (rule sessionOf_fields)
    then show ?thesis using False by (auto split: option.splits)
  qed
qed

lemma deliver_Cons:
  "deliver env fileId chunkOf (i # numbers) s
     = deliver env fileId chunkOf numbers
         (handleScanResult env (Payload (dataPacket fileId chunkOf i)) s)"
  by (simp add: deliver_def receiverRun_def)

lemma deliver_Nil [simp]: "deliver env fileId chunkOf [] s = s"
  by (simp add: deliver_def receiverRun_def)

lemma deliver_store:
  assumes "takingData s" "expectedFileId s = Some fileId" "fileId \<noteq> []"
  shows "mapGet (receivedChunksMap (deliver env fileId chunkOf numbers s)) k
           = (case mapGet (receivedChunksMap s) k of
                Some d \<Rightarrow> Some d
              | None \<Rightarrow>
                  if k \<in> set numbers \<and> 1 \<le> k \<and> k \<le> declaredTotal s \<and> chunkOf k \<noteq> []
                  then Some (chunkOf k) else None)"
  using assms
proof (induction numbers arbitrary: s)
  case Nil
  then show ?case by (simp split: option.splits)
next
  case (Cons i numbers)
  let ?s1 = "processDataChunk (dataPacket fileId chunkOf i) s"
  have step: "handleScanResult env (Payload (dataPacket fileId chunkOf i)) s = ?s1"
    using Cons.prems by (rule handleScanResult_dataPacket)
  have t1: "takingData ?s1" using Cons.prems(1) by (rule takingData_processDataChunk)
  have f1: "expectedFileId ?s1 = Some fileId"
    using Cons.prems(2) by (simp add: processDataChunk_frame)
  have d1: "declaredTotal ?s1 = declaredTotal s"
    by (simp add: declaredTotal_def processDataChunk_frame)
  have "mapGet (receivedChunksMap (deliver env fileId chunkOf (i # numbers) s)) k
          = mapGet (receivedChunksMap (deliver env fileId chunkOf numbers ?s1)) k"
    by (simp add: deliver_Cons step)
  also have "\<dots> = (case mapGet (receivedChunksMap ?s1) k of
                Some d \<Rightarrow> Some d
              | None \<Rightarrow>
                  if k \<in> set numbers \<and> 1 \<le> k \<and> k \<le> declaredTotal s \<and> chunkOf k \<noteq> []
                  then Some (chunkOf k) else None)"
    using Cons.IH[OF t1 f1 Cons.prems(3)] unfolding d1 .
  also have "\<dots> = (case mapGet (receivedChunksMap s) k of
                Some d \<Rightarrow> Some d
              | None \<Rightarrow>
                  if k \<in> set (i # numbers) \<and> 1 \<le> k \<and> k \<le> declaredTotal s \<and> chunkOf k \<noteq> []
                  then Some (chunkOf k) else None)"
    by (auto simp: mapGet_processDataChunk split: option.splits)
  finally show ?case .
qed

lemma deliver_chunkStoreOk: "chunkStoreOk s \<Longrightarrow> chunkStoreOk (deliver env fileId chunkOf numbers s)"
  unfolding deliver_def by (rule receiverRun_store)

lemma deliver_declaredTotal:
  assumes "takingData s" "expectedFileId s = Some fileId" "fileId \<noteq> []"
  shows "declaredTotal (deliver env fileId chunkOf numbers s) = declaredTotal s"
  using assms
proof (induction numbers arbitrary: s)
  case Nil
  then show ?case by simp
next
  case (Cons i numbers)
  let ?s1 = "processDataChunk (dataPacket fileId chunkOf i) s"
  have step: "handleScanResult env (Payload (dataPacket fileId chunkOf i)) s = ?s1"
    using Cons.prems by (rule handleScanResult_dataPacket)
  have t1: "takingData ?s1" using Cons.prems(1) by (rule takingData_processDataChunk)
  have f1: "expectedFileId ?s1 = Some fileId"
    using Cons.prems(2) by (simp add: processDataChunk_frame)
  have d1: "declaredTotal ?s1 = declaredTotal s"
    by (simp add: declaredTotal_def processDataChunk_frame)
  show ?case using Cons.IH[OF t1 f1 Cons.prems(3)] by (simp add: deliver_Cons step d1)
qed

lemma processDataChunk_idempotent:
  "sessionOf (processDataChunk p (processDataChunk p s)) = sessionOf (processDataChunk p s)"
proof -
  let ?s1 = "processDataChunk p s"
  have d: "declaredTotal ?s1 = declaredTotal s"
    by (simp add: declaredTotal_def processDataChunk_frame)
  show ?thesis
  proof (cases "isNumber (p_seq p) \<and> 1 \<le> numberOf (p_seq p)
                 \<and> numberOf (p_seq p) \<le> declaredTotal s
                 \<and> isString (p_dat p) \<and> stringOf (p_dat p) \<noteq> []")
    case False
    then show ?thesis by (auto simp: processDataChunk_sessionOf[of p ?s1] d)
  next
    case True
    let ?k = "numberOf (p_seq p)" and ?v = "stringOf (p_dat p)"
    have s1: "sessionOf ?s1 = sessionOf (addReceivedChunk ?k ?v s)"
      using True by (simp add: processDataChunk_sessionOf)
    then have m1: "receivedChunksMap ?s1 = receivedChunksMap (addReceivedChunk ?k ?v s)"
      by (rule sessionOf_fields)
    have "mapHas (receivedChunksMap ?s1) ?k"
      unfolding m1 by (simp add: mapHas_mapGet mapGet_addReceivedChunk split: option.splits)
    then have "addReceivedChunk ?k ?v ?s1 = ?s1" by (simp add: addReceivedChunk_def)
    then show ?thesis using True by (simp add: processDataChunk_sessionOf[of p ?s1] d)
  qed
qed

text \<open>
  Claim C2. While the receiver takes Data packets of its session, delivering the packets of
  a list of sequence numbers, in any order and with any repetition, leaves the same mapping
  from sequence numbers to chunks, and the same counter, as delivering each distinct number
  once in ascending order; the counter never exceeds the declared total; and scanning a
  packet a second time changes nothing of the session. (The insertion order of the
  JavaScript map follows the delivery order; no lookup depends on it.)
\<close>

theorem chunkStore_order_independent:
  assumes "takingData s" "expectedFileId s = Some fileId" "fileId \<noteq> []" "chunkStoreOk s"
  shows "mapGet (receivedChunksMap (deliver env fileId chunkOf numbers s))
           = mapGet (receivedChunksMap (deliver env fileId chunkOf (sort (remdups numbers)) s))
         \<and> receivedChunkCount (deliver env fileId chunkOf numbers s)
           = receivedChunkCount (deliver env fileId chunkOf (sort (remdups numbers)) s)
         \<and> receivedChunkCount (deliver env fileId chunkOf numbers s) \<le> declaredTotal s
         \<and> sessionOf (processDataChunk p (processDataChunk p s))
           = sessionOf (processDataChunk p s)"
proof -
  let ?a = "deliver env fileId chunkOf numbers s"
  let ?b = "deliver env fileId chunkOf (sort (remdups numbers)) s"
  have maps: "mapGet (receivedChunksMap ?a) = mapGet (receivedChunksMap ?b)"
    by (rule ext) (auto simp: deliver_store[OF assms(1-3)] split: option.splits)
  have "storeInv ?a" "storeInv ?b"
    using deliver_chunkStoreOk[OF assms(4)] by (simp_all add: chunkStoreOk_def)
  then have "receivedChunkCount ?a = receivedChunkCount ?b"
    using maps by (simp add: storeInv_card)
  moreover have "receivedChunkCount ?a \<le> declaredTotal s"
    using chunkStoreOk_count_le[OF deliver_chunkStoreOk[OF assms(4)], of env fileId chunkOf numbers]
    by (simp add: deliver_declaredTotal[OF assms(1-3)])
  ultimately show ?thesis using maps processDataChunk_idempotent by blast
qed

text \<open>The example session with the Data packets 5, 1, 3, 1 against 1, 3, 5.\<close>

theorem chunkStore_order_independent_witness:
  "takingData exampleHandshaken \<and> expectedFileId exampleHandshaken = Some ''fid_1''
   \<and> ''fid_1'' \<noteq> [] \<and> chunkStoreOk exampleHandshaken
   \<and> mapGet (receivedChunksMap (deliver exampleBrowser ''fid_1'' exampleChunk [5, 1, 3, 1]
         exampleHandshaken))
     = mapGet (receivedChunksMap (deliver exampleBrowser ''fid_1'' exampleChunk [1, 3, 5]
         exampleHandshaken))
   \<and> receivedChunkCount (deliver exampleBrowser ''fid_1'' exampleChunk [5, 1, 3, 1]
         exampleHandshaken) \<le> 5"
  using chunkStore_order_independent[of exampleHandshaken "''fid_1''" exampleBrowser exampleChunk
      "[5, 1, 3, 1]" "dataPacket ''fid_1'' exampleChunk 1"]
  by (auto simp: exampleHandshaken_fields exampleHandshaken_ok)

subsection \<open>A Final packet and the missing chunks\<close>

lemma fields_updateReceiverStatus:
  "isScanning (updateReceiverStatus m e s) = isScanning s"
  "qrScanner (updateReceiverStatus m e s) = qrScanner s"
  "receiverState (updateReceiverStatus m e s) = (if e then R_error else receiverState s)"
  "downloads (updateReceiverStatus m e s) = downloads s"
  "pendingExtraction (updateReceiverStatus m e s) = pendingExtraction s"
  "cleanupTimer (updateReceiverStatus m e s) = cleanupTimer s"
  by (simp_all add: updateReceiverStatus_def setReceiverState_def)

lemma fields_setReceiverState:
  "isScanning (setReceiverState st s) = isScanning s"
  "qrScanner (setReceiverState st s) = qrScanner s"
  "receiverState (setReceiverState st s) = st"
  "downloads (setReceiverState st s) = downloads s"
  "pendingExtraction (setReceiverState st s) = pendingExtraction s"
  "cleanupTimer (setReceiverState st s) = cleanupTimer s"
  by (simp_all add: setReceiverState_def)

lemma fields_failVerification:
  "isScanning (failVerification m s) = isScanning s"
  "qrScanner (failVerification m s) = qrScanner s"
  "receiverState (failVerification m s) = R_error"
  "downloads (failVerification m s) = downloads s"
  "pendingExtraction (failVerification m s) = pendingExtraction s"
  "cleanupTimer (failVerification m s) = cleanupTimer s"
  "receiverStatus (failVerification m s) = ''Error: '' @ m"
  "receiverStatusIsError (failVerification m s)"
  by (simp_all add: failVerification_def updateReceiverStatus_def setReceiverState_def)

lemma fields_stopScan:
  "isScanning (stopScan s) = (isScanning s \<and> \<not> qrScanner s)"
  "receiverState (stopScan s) = receiverState s"
  "downloads (stopScan s) = downloads s"
  "pendingExtraction (stopScan s) = pendingExtraction s"
  "cleanupTimer (stopScan s) = cleanupTimer s"
  by (auto simp: stopScan_def updateReceiverStatus_def Let_def)

lemma fields_displayMissingChunks:
  "isScanning (displayMissingChunks s) = isScanning s"
  "qrScanner (displayMissingChunks s) = qrScanner s"
  "downloads (displayMissingChunks s) = downloads s"
  "pendingExtraction (displayMissingChunks s) = pendingExtraction s"
  "cleanupTimer (displayMissingChunks s) = cleanupTimer s"
  "receiverState s = R_error \<Longrightarrow> receiverState (displayMissingChunks s) = R_error"
  by (simp_all add: displayMissingChunks_def Let_def updateReceiverStatus_def setReceiverState_def
      split: option.splits)

lemmas receiver_fields = fields_updateReceiverStatus fields_setReceiverState
  fields_failVerification fields_stopScan fields_displayMissingChunks

lemma verifyAndDownload_stops:
  assumes "isScanning s \<longrightarrow> qrScanner s"
  shows "\<not> isScanning (verifyAndDownload env p s)"
  using assms
  by (simp add: verifyAndDownload_def Let_def receiver_fields triggerFileDownload_def
      postDownloadCleanup_def split: option.splits sum.splits)

text \<open>
  Claim C3. A receiver in \<^verbatim>\<open>receiving_data\<close> or \<^verbatim>\<open>waiting_missing\<close> reads a Final packet
  of its session. It computes the sequence numbers of \<open>1..total\<close> that the store lacks.
  If there is none, it goes on to verification: the result is that of \<^verbatim>\<open>verifyAndDownload\<close>,
  which stops a running scanner (the code has no assignment of the state \<^verbatim>\<open>verifying\<close>;
  verification is this call). If chunks are missing and the scanner is running, it enters
  \<^verbatim>\<open>waiting_missing\<close>, shows the number and the ranges of the missing chunks, keeps the
  scanner running, still accepts scans, and its session is untouched. If chunks are missing
  and the scanner is not running, \<^verbatim>\<open>checkForMissingChunksAndFinalize\<close> calls \<^verbatim>\<open>startScan\<close>,
  which resets the session: the receiver is in \<^verbatim>\<open>waiting_handshake\<close> with no file id and an
  empty store, and the missing chunks are no longer shown.
\<close>

theorem final_packet_completeness:
  assumes "receiverState s = R_receiving_data \<or> receiverState s = R_waiting_missing"
    and "expectedFileId s = Some fileId" and "fileId \<noteq> []"
    and "expectedTotalChunks s = Some totalChunks"
    and "p_v p = JNumber PROTOCOL_VERSION" and "p_typ p = JString ''f''"
    and "p_fid p = JString fileId" and "p_chk p = JString checksum" and "checksum \<noteq> []"
  shows "(findMissing totalChunks (receivedChunksMap s) = [] \<longrightarrow>
           handleScanResult env (Payload p) s
             = verifyAndDownload env p
                 ((updateReceiverStatus msgFinalReceived False s)\<lparr>missingChunksInfoHidden := True\<rparr>)
           \<and> ((isScanning s \<longrightarrow> qrScanner s) \<longrightarrow>
                 \<not> isScanning (handleScanResult env (Payload p) s)))
       \<and> (findMissing totalChunks (receivedChunksMap s) \<noteq> [] \<and> isScanning s \<longrightarrow>
           receiverState (handleScanResult env (Payload p) s) = R_waiting_missing
           \<and> missingChunksList (handleScanResult env (Payload p) s)
               = formatMissingChunks (findMissing totalChunks (receivedChunksMap s))
           \<and> missingChunksCount (handleScanResult env (Payload p) s)
               = showNat (length (findMissing totalChunks (receivedChunksMap s)))
           \<and> \<not> missingChunksInfoHidden (handleScanResult env (Payload p) s)
           \<and> receiverStatus (handleScanResult env (Payload p) s)
               = ''Status: '' @ msgWaitingKeepScanning
                   (showNat (length (findMissing totalChunks (receivedChunksMap s))))
           \<and> \<not> receiverStatusIsError (handleScanResult env (Payload p) s)
           \<and> isScanning (handleScanResult env (Payload p) s)
           \<and> qrScanner (handleScanResult env (Payload p) s) = qrScanner s
           \<and> acceptsScans (receiverState (handleScanResult env (Payload p) s))
           \<and> sessionOf (handleScanResult env (Payload p) s) = sessionOf s)
       \<and> (findMissing totalChunks (receivedChunksMap s) \<noteq> [] \<and> \<not> isScanning s \<longrightarrow>
           receiverState (handleScanResult env (Payload p) s) = R_waiting_handshake
           \<and> sessionCleared (handleScanResult env (Payload p) s)
           \<and> missingChunksInfoHidden (handleScanResult env (Payload p) s)
           \<and> receiverStatus (handleScanResult env (Payload p) s)
               = ''Status: '' @ msgInitializingCamera
           \<and> \<not> isScanning (handleScanResult env (Payload p) s)
           \<and> qrScanner (handleScanResult env (Payload p) s))"
proof -
  let ?s0 = "updateReceiverStatus msgFinalReceived False s"
  let ?r = "handleScanResult env (Payload p) s"
  let ?missing = "findMissing totalChunks (receivedChunksMap s)"
  have ok: "structureOk p" using assms by (simp add: structureOk_def)
  have step: "?r = checkForMissingChunksAndFinalize env p ?s0"
    using assms ok
    by (auto simp: handleScanResult_def handleFinalPacket_def acceptsScans_def)
  have s0: "expectedTotalChunks ?s0 = Some totalChunks" "receivedChunksMap ?s0 = receivedChunksMap s"
    "isScanning ?s0 = isScanning s" "qrScanner ?s0 = qrScanner s"
    using assms by (simp_all add: updateReceiverStatus_def)
  have empty: "?r = verifyAndDownload env p (?s0\<lparr>missingChunksInfoHidden := True\<rparr>)
           \<and> ((isScanning s \<longrightarrow> qrScanner s) \<longrightarrow> \<not> isScanning ?r)"
    if e: "?missing = []"
  proof -
    have v: "checkForMissingChunksAndFinalize env p ?s0
               = verifyAndDownload env p (?s0\<lparr>missingChunksInfoHidden := True\<rparr>)"
      using e by (simp add: checkForMissingChunksAndFinalize_def s0 Let_def)
    have "\<not> isScanning (verifyAndDownload env p (?s0\<lparr>missingChunksInfoHidden := True\<rparr>))"
      if "isScanning s \<longrightarrow> qrScanner s"
      by (rule verifyAndDownload_stops) (simp add: s0 that)
    then show ?thesis by (simp add: step v)
  qed
  have t: "totalChunks \<noteq> 0" if "?missing \<noteq> []"
    using that by (auto simp: findMissing_def)
  have scanning: "receiverState ?r = R_waiting_missing
           \<and> missingChunksList ?r = formatMissingChunks ?missing
           \<and> missingChunksCount ?r = showNat (length ?missing)
           \<and> \<not> missingChunksInfoHidden ?r
           \<and> receiverStatus ?r = ''Status: '' @ msgWaitingKeepScanning (showNat (length ?missing))
           \<and> \<not> receiverStatusIsError ?r
           \<and> isScanning ?r
           \<and> qrScanner ?r = qrScanner s
           \<and> acceptsScans (receiverState ?r)
           \<and> sessionOf ?r = sessionOf s"
    if m: "?missing \<noteq> []" and sc: "isScanning s"
  proof -
    have w: "checkForMissingChunksAndFinalize env p ?s0
               = updateReceiverStatus (msgWaitingKeepScanning (showNat (length ?missing))) False
                   (displayMissingChunks (setReceiverState R_waiting_missing ?s0))"
      using m t[OF m] sc by (simp add: checkForMissingChunksAndFinalize_def s0 Let_def)
    have "sessionOf ?r = sessionOf s"
      by (simp add: step w)
    moreover have "receiverState ?r = R_waiting_missing
           \<and> missingChunksList ?r = formatMissingChunks ?missing
           \<and> missingChunksCount ?r = showNat (length ?missing)
           \<and> \<not> missingChunksInfoHidden ?r
           \<and> receiverStatus ?r = ''Status: '' @ msgWaitingKeepScanning (showNat (length ?missing))
           \<and> \<not> receiverStatusIsError ?r
           \<and> isScanning ?r
           \<and> qrScanner ?r = qrScanner s"
      using m assms(4) sc
      unfolding step w
      by (simp add: displayMissingChunks_def updateReceiverStatus_def
          setReceiverState_def Let_def)
    ultimately show ?thesis by (simp add: acceptsScans_def)
  qed
  have stopped: "receiverState ?r = R_waiting_handshake
           \<and> sessionCleared ?r
           \<and> missingChunksInfoHidden ?r
           \<and> receiverStatus ?r = ''Status: '' @ msgInitializingCamera
           \<and> \<not> isScanning ?r
           \<and> qrScanner ?r"
    if m: "?missing \<noteq> []" and sc: "\<not> isScanning s"
  proof -
    let ?s2 = "displayMissingChunks (setReceiverState R_waiting_missing ?s0)"
    have w: "checkForMissingChunksAndFinalize env p ?s0 = startScan ?s2"
      using m t[OF m] sc by (simp add: checkForMissingChunksAndFinalize_def s0 Let_def)
    have n: "\<not> isScanning ?s2" using sc by (simp add: receiver_fields)
    have "sessionCleared ?r" unfolding step w using n by (rule startScan_cleared)
    moreover have "receiverState ?r = R_waiting_handshake
           \<and> missingChunksInfoHidden ?r
           \<and> receiverStatus ?r = ''Status: '' @ msgInitializingCamera
           \<and> \<not> isScanning ?r
           \<and> qrScanner ?r"
      unfolding step w using n
      by (simp add: startScan_def Let_def updateReceiverStatus_def setReceiverState_def
          updateReceiverUI_def resetReceiverStateInternal_def)
    ultimately show ?thesis by simp
  qed
  show ?thesis using empty scanning stopped by blast
qed

lemma examplePartial_fields:
  "receiverState examplePartial = R_receiving_data"
  "isScanning examplePartial" "qrScanner examplePartial"
  "expectedFileId examplePartial = Some ''fid_1''"
  "expectedTotalChunks examplePartial = Some 5"
  "receivedChunksMap examplePartial = [(5, ''QUJD''), (1, ''QUJD''), (3, ''QUJD'')]"
  "receivedChunkCount examplePartial = 3"
  by (simp_all add: examplePartial_def deliver_def receiverRun_def handleScanResult_def
      processDataChunk_def addReceivedChunk_def updateReceiverStatus_def setReceiverState_def
      dataPacket_def exampleChunk_def acceptsScans_def structureOk_def mapHas_def
      PROTOCOL_VERSION_def Let_def exampleHandshaken_fields)

lemma examplePartial_missing: "findMissing 5 (receivedChunksMap examplePartial) = [2, 4]"
proof -
  have "[1..5::int] = [1, 2, 3, 4, 5]" by (simp add: upto.simps)
  then show ?thesis by (simp add: findMissing_def examplePartial_fields mapHas_def)
qed

lemma exampleStopped_fields:
  "receiverState exampleStopped = R_receiving_data"
  "\<not> isScanning exampleStopped" "\<not> qrScanner exampleStopped"
  "expectedFileId exampleStopped = Some ''fid_1''"
  "expectedTotalChunks exampleStopped = Some 5"
  "receivedChunksMap exampleStopped = [(5, ''QUJD''), (1, ''QUJD''), (3, ''QUJD'')]"
  "receivedChunkCount exampleStopped = 3"
  by (simp_all add: exampleStopped_def receiverRun_def stopScan_def updateReceiverStatus_def
      Let_def examplePartial_fields)

lemma exampleStopped_reachable: "reachable exampleBrowser exampleStopped"
  unfolding exampleStopped_def examplePartial_def deliver_def exampleHandshaken_def
  by (intro reachable_run reachable_init)

text \<open>The example session, where chunks 2 and 4 of 5 are missing when the Final packet
  arrives: with the scanner running, and after the user stopped it.\<close>

theorem final_packet_completeness_witness:
  "receiverState examplePartial = R_receiving_data
   \<and> expectedFileId examplePartial = Some ''fid_1''
   \<and> expectedTotalChunks examplePartial = Some 5
   \<and> isScanning examplePartial
   \<and> findMissing 5 (receivedChunksMap examplePartial) = [2, 4]
   \<and> receiverState (handleScanResult exampleBrowser (Payload (finalPacket ''fid_1'' ''0514''))
         examplePartial) = R_waiting_missing
   \<and> missingChunksList (handleScanResult exampleBrowser (Payload (finalPacket ''fid_1'' ''0514''))
         examplePartial) = ''2, 4''
   \<and> missingChunksCount (handleScanResult exampleBrowser (Payload (finalPacket ''fid_1'' ''0514''))
         examplePartial) = ''2''
   \<and> isScanning (handleScanResult exampleBrowser (Payload (finalPacket ''fid_1'' ''0514''))
         examplePartial)
   \<and> \<not> isScanning exampleStopped
   \<and> receiverState (handleScanResult exampleBrowser (Payload (finalPacket ''fid_1'' ''0514''))
         exampleStopped) = R_waiting_handshake
   \<and> sessionCleared (handleScanResult exampleBrowser (Payload (finalPacket ''fid_1'' ''0514''))
         exampleStopped)"
proof -
  have f: "formatMissingChunks [2, 4] = ''2, 4''"
    by (simp add: formatMissingChunks_def rangeText_def showInt_def digitChar_def)
  have n: "showNat (length [2, 4 :: int]) = ''2''"
    by (simp add: showNat_def digitChar_def)
  have a: "receiverState (handleScanResult exampleBrowser (Payload (finalPacket ''fid_1'' ''0514''))
         examplePartial) = R_waiting_missing
   \<and> missingChunksList (handleScanResult exampleBrowser (Payload (finalPacket ''fid_1'' ''0514''))
         examplePartial) = ''2, 4''
   \<and> missingChunksCount (handleScanResult exampleBrowser (Payload (finalPacket ''fid_1'' ''0514''))
         examplePartial) = ''2''
   \<and> isScanning (handleScanResult exampleBrowser (Payload (finalPacket ''fid_1'' ''0514''))
         examplePartial)"
    using final_packet_completeness[of examplePartial "''fid_1''" 5 "finalPacket ''fid_1'' ''0514''"
        "''0514''" exampleBrowser] f n
    by (simp add: examplePartial_fields examplePartial_missing[unfolded examplePartial_fields]
        finalPacket_def)
  have b: "receiverState (handleScanResult exampleBrowser (Payload (finalPacket ''fid_1'' ''0514''))
         exampleStopped) = R_waiting_handshake
   \<and> sessionCleared (handleScanResult exampleBrowser (Payload (finalPacket ''fid_1'' ''0514''))
         exampleStopped)"
    using final_packet_completeness[of exampleStopped "''fid_1''" 5 "finalPacket ''fid_1'' ''0514''"
        "''0514''" exampleBrowser]
    by (simp add: exampleStopped_fields examplePartial_missing[unfolded examplePartial_fields]
        finalPacket_def)
  show ?thesis
    using a b
    by (simp add: examplePartial_fields examplePartial_missing[unfolded examplePartial_fields]
        exampleStopped_fields)
qed

text \<open>Against the claim as stated: the stopped example session is in \<^verbatim>\<open>receiving_data\<close>
  with three chunks of \<^verbatim>\<open>fid_1\<close> stored. The Final packet of \<^verbatim>\<open>fid_1\<close> does not take it to
  \<^verbatim>\<open>waiting_missing\<close>: the session and the three chunks are gone, nothing is reported as
  missing, and the Data packet of chunk 2 is ignored afterwards.\<close>

theorem final_packet_restart_clears_session:
  "reachable exampleBrowser exampleStopped
   \<and> receiverState exampleStopped = R_receiving_data
   \<and> expectedFileId exampleStopped = Some ''fid_1''
   \<and> receivedChunksMap exampleStopped = [(5, ''QUJD''), (1, ''QUJD''), (3, ''QUJD'')]
   \<and> findMissing 5 (receivedChunksMap exampleStopped) = [2, 4]
   \<and> receiverState (handleScanResult exampleBrowser (Payload (finalPacket ''fid_1'' ''0514''))
         exampleStopped) = R_waiting_handshake
   \<and> receiverState (handleScanResult exampleBrowser (Payload (finalPacket ''fid_1'' ''0514''))
         exampleStopped) \<noteq> R_waiting_missing
   \<and> expectedFileId (handleScanResult exampleBrowser (Payload (finalPacket ''fid_1'' ''0514''))
         exampleStopped) = None
   \<and> receivedChunksMap (handleScanResult exampleBrowser (Payload (finalPacket ''fid_1'' ''0514''))
         exampleStopped) = []
   \<and> missingChunksInfoHidden (handleScanResult exampleBrowser
         (Payload (finalPacket ''fid_1'' ''0514'')) exampleStopped)
   \<and> handleScanResult exampleBrowser (Payload (dataPacket ''fid_1'' exampleChunk 2))
         (handleScanResult exampleBrowser (Payload (finalPacket ''fid_1'' ''0514'')) exampleStopped)
       = handleScanResult exampleBrowser (Payload (finalPacket ''fid_1'' ''0514'')) exampleStopped"
proof -
  have u: "[1..5::int] = [1, 2, 3, 4, 5]" by (simp add: upto.simps)
  have m: "findMissing 5 [(5, ''QUJD''), (1, ''QUJD''), (3, ''QUJD'')] = [2, 4]"
    by (simp add: findMissing_def u mapHas_def)
  have r: "handleScanResult exampleBrowser (Payload (finalPacket ''fid_1'' ''0514'')) exampleStopped
      = startScan (displayMissingChunks (setReceiverState R_waiting_missing
          (updateReceiverStatus msgFinalReceived False exampleStopped)))"
    by (simp add: handleScanResult_def handleFinalPacket_def checkForMissingChunksAndFinalize_def
        acceptsScans_def structureOk_def finalPacket_def PROTOCOL_VERSION_def Let_def
        exampleStopped_fields receiver_fields updateReceiverStatus_def m)
  have f: "receiverState (handleScanResult exampleBrowser (Payload (finalPacket ''fid_1'' ''0514''))
         exampleStopped) = R_waiting_handshake
   \<and> expectedFileId (handleScanResult exampleBrowser (Payload (finalPacket ''fid_1'' ''0514''))
         exampleStopped) = None
   \<and> receivedChunksMap (handleScanResult exampleBrowser (Payload (finalPacket ''fid_1'' ''0514''))
         exampleStopped) = []
   \<and> missingChunksInfoHidden (handleScanResult exampleBrowser
         (Payload (finalPacket ''fid_1'' ''0514'')) exampleStopped)"
    unfolding r
    by (simp add: startScan_def Let_def updateReceiverStatus_def setReceiverState_def
        updateReceiverUI_def resetReceiverStateInternal_def receiver_fields exampleStopped_fields)
  have d: "handleScanResult exampleBrowser (Payload (dataPacket ''fid_1'' exampleChunk 2)) x = x"
    if "receiverState x = R_waiting_handshake" for x
    using that
    by (simp add: handleScanResult_def acceptsScans_def structureOk_def dataPacket_def
        PROTOCOL_VERSION_def)
  show ?thesis
    using f d[of "handleScanResult exampleBrowser (Payload (finalPacket ''fid_1'' ''0514''))
         exampleStopped"]
    by (simp add: exampleStopped_reachable exampleStopped_fields m)
qed

subsection \<open>A packet of another protocol version\<close>

lemma handleScanResult_version:
  assumes "acceptsScans (receiverState s)" "structureOk p" "p_v p \<noteq> JNumber PROTOCOL_VERSION"
  shows "handleScanResult env (Payload p) s
           = stopScan (updateReceiverStatus
               (msgIncompatibleVersion (jsToString (p_v p)) (showInt PROTOCOL_VERSION)) True s)"
  using assms by (simp add: handleScanResult_def)

lemma handleScanResult_ignored:
  "\<not> acceptsScans (receiverState s) \<Longrightarrow> handleScanResult env r s = s"
  by (simp add: handleScanResult_def)

text \<open>
  Claim C4, as the code has it. A structurally valid packet of another version, read in any
  state that accepts scans, puts the receiver in the state \<^verbatim>\<open>error\<close> with the
  incompatibility reported as an error; a running scanner is stopped and destroyed, and every
  later scan result is ignored. The session is not reset by this: the file id, the
  announced sizes and the chunk store stay as they were, until the next
  \<^verbatim>\<open>startScan\<close> clears them.
\<close>

theorem version_mismatch_is_fatal:
  assumes "acceptsScans (receiverState s)" and "structureOk p"
    and "p_v p \<noteq> JNumber PROTOCOL_VERSION"
  shows "receiverState (handleScanResult env (Payload p) s) = R_error
       \<and> receiverStatusIsError (handleScanResult env (Payload p) s)
       \<and> receiverStatus (handleScanResult env (Payload p) s)
           = ''Error: '' @ msgIncompatibleVersion (jsToString (p_v p)) (showInt PROTOCOL_VERSION)
       \<and> (isScanning s \<and> qrScanner s \<longrightarrow>
             \<not> isScanning (handleScanResult env (Payload p) s)
             \<and> \<not> qrScanner (handleScanResult env (Payload p) s))
       \<and> (\<forall>r. handleScanResult env r (handleScanResult env (Payload p) s)
                = handleScanResult env (Payload p) s)
       \<and> sessionOf (handleScanResult env (Payload p) s) = sessionOf s
       \<and> (\<not> isScanning (handleScanResult env (Payload p) s) \<longrightarrow>
             sessionCleared (startScan (handleScanResult env (Payload p) s)))"
proof -
  let ?s' = "handleScanResult env (Payload p) s"
  note step = handleScanResult_version[OF assms, of env]
  have st: "receiverState ?s' = R_error"
    unfolding step by (simp add: stopScan_def updateReceiverStatus_def setReceiverState_def)
  have "receiverStatusIsError ?s'
      \<and> receiverStatus ?s'
           = ''Error: '' @ msgIncompatibleVersion (jsToString (p_v p)) (showInt PROTOCOL_VERSION)
      \<and> (isScanning s \<and> qrScanner s \<longrightarrow> \<not> isScanning ?s' \<and> \<not> qrScanner ?s')"
    unfolding step by (simp add: stopScan_def updateReceiverStatus_def setReceiverState_def)
  moreover have "\<forall>r. handleScanResult env r ?s' = ?s'"
    using st by (simp add: handleScanResult_ignored acceptsScans_def)
  moreover have "sessionOf ?s' = sessionOf s"
    unfolding step by simp
  moreover have "\<not> isScanning ?s' \<longrightarrow> sessionCleared (startScan ?s')"
    by (simp add: startScan_cleared)
  ultimately show ?thesis using st by blast
qed

text \<open>The example session reads a Data packet of version 2: the receiver stops with the
  error, and the session of \<^verbatim>\<open>fid_1\<close> with its three chunks is still there.\<close>

theorem version_mismatch_is_fatal_witness:
  "acceptsScans (receiverState examplePartial)
   \<and> structureOk ((dataPacket ''fid_1'' exampleChunk 2)\<lparr>p_v := JNumber 2\<rparr>)
   \<and> p_v ((dataPacket ''fid_1'' exampleChunk 2)\<lparr>p_v := JNumber 2\<rparr>) \<noteq> JNumber PROTOCOL_VERSION
   \<and> receiverState (handleScanResult exampleBrowser
         (Payload ((dataPacket ''fid_1'' exampleChunk 2)\<lparr>p_v := JNumber 2\<rparr>)) examplePartial)
       = R_error
   \<and> \<not> isScanning (handleScanResult exampleBrowser
         (Payload ((dataPacket ''fid_1'' exampleChunk 2)\<lparr>p_v := JNumber 2\<rparr>)) examplePartial)
   \<and> receiverStatus (handleScanResult exampleBrowser
         (Payload ((dataPacket ''fid_1'' exampleChunk 2)\<lparr>p_v := JNumber 2\<rparr>)) examplePartial)
       = ''Error: Incompatible protocol version (Received: 2, Expected: 1). Stopping.''"
  using version_mismatch_is_fatal[of examplePartial
      "(dataPacket ''fid_1'' exampleChunk 2)\<lparr>p_v := JNumber 2\<rparr>" exampleBrowser]
  by (simp add: examplePartial_fields acceptsScans_def structureOk_def dataPacket_def
      PROTOCOL_VERSION_def msgIncompatibleVersion_def showInt_def digitChar_def)

text \<open>Against the claim as stated: after that packet the session is not reset.\<close>

theorem version_mismatch_keeps_session:
  "acceptsScans (receiverState examplePartial)
   \<and> structureOk ((dataPacket ''fid_1'' exampleChunk 2)\<lparr>p_v := JNumber 2\<rparr>)
   \<and> receiverState (handleScanResult exampleBrowser
         (Payload ((dataPacket ''fid_1'' exampleChunk 2)\<lparr>p_v := JNumber 2\<rparr>)) examplePartial)
       = R_error
   \<and> expectedFileId (handleScanResult exampleBrowser
         (Payload ((dataPacket ''fid_1'' exampleChunk 2)\<lparr>p_v := JNumber 2\<rparr>)) examplePartial)
       = Some ''fid_1''
   \<and> receivedChunksMap (handleScanResult exampleBrowser
         (Payload ((dataPacket ''fid_1'' exampleChunk 2)\<lparr>p_v := JNumber 2\<rparr>)) examplePartial)
       = [(5, ''QUJD''), (1, ''QUJD''), (3, ''QUJD'')]
   \<and> receivedChunkCount (handleScanResult exampleBrowser
         (Payload ((dataPacket ''fid_1'' exampleChunk 2)\<lparr>p_v := JNumber 2\<rparr>)) examplePartial)
       = 3
   \<and> \<not> sessionCleared (handleScanResult exampleBrowser
         (Payload ((dataPacket ''fid_1'' exampleChunk 2)\<lparr>p_v := JNumber 2\<rparr>)) examplePartial)"
  by (simp add: handleScanResult_def stopScan_def updateReceiverStatus_def setReceiverState_def
      examplePartial_fields acceptsScans_def structureOk_def dataPacket_def
      PROTOCOL_VERSION_def sessionCleared_def sessionOf_def Let_def)

subsection \<open>A Final packet while waiting for the handshake\<close>

lemma noSession_other: "receiverState s \<noteq> R_waiting_handshake \<Longrightarrow> noSessionWhileWaiting s"
  by (simp add: noSessionWhileWaiting_def)

lemma noSession_cleared: "sessionCleared s \<Longrightarrow> noSessionWhileWaiting s"
  by (simp add: noSessionWhileWaiting_def sessionCleared_def sessionOf_def)

lemma noSession_same:
  assumes "noSessionWhileWaiting s" "receiverState s' = receiverState s"
    "sessionOf s' = sessionOf s"
  shows "noSessionWhileWaiting s'"
  using assms by (simp add: noSessionWhileWaiting_def sessionOf_def)

lemma receiverState_verifyAndDownload:
  "receiverState (verifyAndDownload env p s) = receiverState s
   \<or> receiverState (verifyAndDownload env p s) = R_error
   \<or> receiverState (verifyAndDownload env p s) = R_complete"
  by (simp add: verifyAndDownload_def Let_def receiver_fields triggerFileDownload_def
      postDownloadCleanup_def split: option.splits sum.splits)

lemma receiverState_checkForMissing:
  assumes "receiverState s \<noteq> R_waiting_handshake"
  shows "noSessionWhileWaiting (checkForMissingChunksAndFinalize env p s)"
proof (cases "expectedTotalChunks s")
  case None
  then show ?thesis
    by (simp add: checkForMissingChunksAndFinalize_def Let_def receiver_fields noSession_other)
next
  case (Some totalChunks)
  let ?x = "s\<lparr>missingChunksInfoHidden := True\<rparr>"
  let ?s2 = "displayMissingChunks (setReceiverState R_waiting_missing s)"
  have v: "noSessionWhileWaiting (verifyAndDownload env p ?x)"
    using receiverState_verifyAndDownload[of env p ?x] assms by (auto intro: noSession_other)
  have m: "receiverState ?s2 \<noteq> R_waiting_handshake"
    using receiverState_displayMissingChunks[of "setReceiverState R_waiting_missing s"]
    by (auto simp: fields_setReceiverState)
  have st: "\<not> isScanning s \<Longrightarrow> noSessionWhileWaiting (startScan ?s2)"
    by (rule noSession_cleared, rule startScan_cleared) (simp add: receiver_fields)
  have u: "noSessionWhileWaiting (updateReceiverStatus t False ?s2)" for t
    using m by (simp add: noSession_other receiver_fields)
  show ?thesis
    unfolding checkForMissingChunksAndFinalize_def Let_def Some option.case
    using v st u by (simp split: if_splits)
qed

lemma handleFinalPacket_noSession:
  assumes "receiverState s \<noteq> R_waiting_handshake"
  shows "noSessionWhileWaiting (handleFinalPacket env p s)"
proof -
  have a: "noSessionWhileWaiting s" using assms by (rule noSession_other)
  have b: "noSessionWhileWaiting (stopScan (failVerification msgFinalWithoutChecksum s))"
    by (simp add: noSession_other receiver_fields)
  have c: "noSessionWhileWaiting
             (checkForMissingChunksAndFinalize env p (updateReceiverStatus msgFinalReceived False s))"
    by (rule receiverState_checkForMissing) (simp add: receiver_fields assms)
  show ?thesis
    unfolding handleFinalPacket_def using a b c by (simp split: if_splits)
qed

lemma handleScanResult_noSession:
  assumes "noSessionWhileWaiting s"
  shows "noSessionWhileWaiting (handleScanResult env r s)"
proof (rule handleScanResult_cases[where P = noSessionWhileWaiting])
  show "noSessionWhileWaiting s" by (rule assms)
  show "noSessionWhileWaiting (s\<lparr>receiverDebug := x\<rparr>)" for x
    using assms by (simp add: noSessionWhileWaiting_def)
  show "noSessionWhileWaiting (stopScan (updateReceiverStatus m True s))" for m
    by (simp add: noSession_other receiver_fields)
  show "noSessionWhileWaiting (processHandshake env p s)" for p
  proof -
    have "receiverState (processHandshake env p s) \<noteq> R_waiting_handshake
          \<or> processHandshake env p s = s\<lparr>receiverDebug := ''HShake Field Err''\<rparr>
          \<or> processHandshake env p s = s"
      by (simp add: processHandshake_def Let_def receiver_fields)
    moreover have "noSessionWhileWaiting (s\<lparr>receiverDebug := ''HShake Field Err''\<rparr>)"
      using assms by (simp add: noSessionWhileWaiting_def)
    ultimately show ?thesis using assms noSession_other by metis
  qed
  show "noSessionWhileWaiting (handleFinalPacket env p s)"
    if "structureOk p" "strictEq (p_fid p) (expectedFileId s)" for p
  proof -
    have "receiverState s \<noteq> R_waiting_handshake"
    proof
      assume w: "receiverState s = R_waiting_handshake"
      then have "expectedFileId s = None" using assms by (simp add: noSessionWhileWaiting_def)
      moreover have "isString (p_fid p)" using that(1) by (simp add: structureOk_def)
      ultimately show False using that(2) by (cases "p_fid p") simp_all
    qed
    then show ?thesis by (rule handleFinalPacket_noSession)
  qed
  show "noSessionWhileWaiting (processDataChunk p s)"
    if "receiverState s = R_receiving_data \<or> receiverState s = R_waiting_missing
          \<or> receiverState s = R_waiting_final" for p
  proof -
    from that have "takingData s" by (simp add: takingData_def)
    then have "takingData (processDataChunk p s)" by (rule takingData_processDataChunk)
    then show ?thesis by (auto simp: takingData_def noSession_other)
  qed
qed

lemma receiverStep_noSession:
  assumes "noSessionWhileWaiting s"
  shows "noSessionWhileWaiting (receiverStep env ev s)"
proof (cases ev)
  case EvStartScan
  then show ?thesis
    using assms startScan_cleared[of s] by (cases "isScanning s")
      (simp_all add: noSession_cleared startScan_def)
next
  case EvStopScan
  then show ?thesis using assms by (simp add: noSession_same receiver_fields)
next
  case EvScannerStarted
  then show ?thesis using assms
    by (simp add: noSession_same scannerStarted_def receiver_fields)
next
  case (EvScannerStartFailed err)
  then show ?thesis by (simp add: noSession_cleared)
next
  case (EvScanResult r)
  then show ?thesis using assms by (simp add: handleScanResult_noSession)
next
  case (EvExtractionDone outcome)
  have "receiverState (extractionDone outcome s) = R_complete \<or> extractionDone outcome s = s"
    by (simp add: extractionDone_def Let_def postDownloadCleanup_def triggerFileDownload_def
        receiver_fields split: option.splits zipOutcome.splits)
  then show ?thesis using assms EvExtractionDone by (auto simp: noSession_other)
next
  case EvCleanupTimer
  have "sessionCleared (cleanupFired s) \<or> cleanupFired s = s"
    by (simp add: cleanupFired_def sessionCleared_def split: option.splits)
  then show ?thesis using assms EvCleanupTimer by (auto simp: noSession_cleared)
qed

lemma reachable_noSession: "reachable env s \<Longrightarrow> noSessionWhileWaiting s"
proof (induction rule: reachable.induct)
  case reachable_init
  then show ?case by (simp add: noSessionWhileWaiting_def initialReceiver_def)
next
  case (reachable_step s ev)
  then show ?case by (simp add: receiverStep_noSession)
qed

lemma example_reachable: "reachable exampleBrowser exampleRestarted"
  unfolding exampleRestarted_def examplePartial_def deliver_def exampleHandshaken_def
  by (intro reachable_run reachable_init)

lemma exampleRestarted_fields:
  "receiverState exampleRestarted = R_waiting_handshake"
  "isScanning exampleRestarted" "qrScanner exampleRestarted"
  "expectedFileId exampleRestarted = None"
  "receivedChunksMap exampleRestarted = []"
  by (simp_all add: exampleRestarted_def receiverRun_def stopScan_def startScan_def
      scannerStarted_def resetReceiverStateInternal_def updateReceiverUI_def
      updateReceiverStatus_def setReceiverState_def Let_def examplePartial_fields)

text \<open>
  Claim C8, refuted. The branch of \<^verbatim>\<open>handleScanResult\<close> that accepts a Final packet in
  \<^verbatim>\<open>waiting_handshake\<close> asks for \<^verbatim>\<open>payload.fid === expectedFileId\<close>. The only assignment of
  \<^verbatim>\<open>waiting_handshake\<close> is in \<^verbatim>\<open>startScan\<close>, right after \<^verbatim>\<open>resetReceiverStateInternal\<close> has
  set the file id to \<^verbatim>\<open>null\<close>, and a handshake that sets a file id leaves the state. So in
  every state the receiver reaches, waiting for a handshake it remembers no file id, and
  every Final packet of the implementation's version is ignored there: no reachable state
  is as the claim asks.
\<close>

theorem final_ignored_while_waiting_handshake:
  assumes "reachable env s" and "receiverState s = R_waiting_handshake"
    and "structureOk p" and "p_v p = JNumber PROTOCOL_VERSION" and "p_typ p = JString ''f''"
  shows "expectedFileId s = None \<and> handleScanResult env (Payload p) s = s"
proof -
  have n: "expectedFileId s = None"
    using reachable_noSession[OF assms(1)] assms(2) by (simp add: noSessionWhileWaiting_def)
  have "isString (p_fid p)" using assms(3) by (simp add: structureOk_def)
  then have "\<not> strictEq (p_fid p) (expectedFileId s)"
    unfolding n by (cases "p_fid p") simp_all
  then show ?thesis
    using n assms(2-5) by (simp add: handleScanResult_def acceptsScans_def)
qed

text \<open>The restart in the middle of the example session: the Final packet of \<^verbatim>\<open>fid_1\<close>
  changes nothing.\<close>

theorem final_ignored_while_waiting_handshake_witness:
  "reachable exampleBrowser exampleRestarted
   \<and> receiverState exampleRestarted = R_waiting_handshake
   \<and> structureOk (finalPacket ''fid_1'' ''0514'')
   \<and> p_v (finalPacket ''fid_1'' ''0514'') = JNumber PROTOCOL_VERSION
   \<and> p_typ (finalPacket ''fid_1'' ''0514'') = JString ''f''
   \<and> expectedFileId examplePartial = Some ''fid_1''
   \<and> expectedFileId exampleRestarted = None
   \<and> handleScanResult exampleBrowser (Payload (finalPacket ''fid_1'' ''0514'')) exampleRestarted
       = exampleRestarted"
  using final_ignored_while_waiting_handshake[of exampleBrowser exampleRestarted
      "finalPacket ''fid_1'' ''0514''"]
  by (simp add: example_reachable exampleRestarted_fields examplePartial_fields structureOk_def
      finalPacket_def)

subsection \<open>The checksum comparison of the receiver\<close>

lemma verifyAndDownload_compare:
  assumes "bufferToVerify env s = Some buf"
  shows "verifyAndDownload env p s =
     (let s1 = (if isScanning s then stopScan s else s);
          s4 = updateReceiverStatus msgVerifyingChecksum False
                 (updateReceiverStatus msgDecoding False
                    (updateReceiverStatus msgAssembling False s1))
      in if JString (calculateChecksum buf) \<noteq> p_chk p then
           failVerification msgChecksumMismatch s4
         else
           (let s5 = updateReceiverStatus msgDataVerified False s4;
                orig = (case expectedOriginalFilename s of None \<Rightarrow> [] | Some n \<Rightarrow> n);
                archiveName = (case expectedArchiveName s of None \<Rightarrow> [] | Some n \<Rightarrow> n);
                filename =
                  (if orig \<noteq> [] then orig
                   else if archiveName \<noteq> [] then archiveName
                   else MULTI_FILE_ARCHIVE_NAME)
            in if orig \<noteq> [] then
                 (updateReceiverStatus (msgExtractingSingle orig) False s5)
                   \<lparr>pendingExtraction :=
                      Some \<lparr>receivedZipBuffer = buf, originalFilename = orig,
                            finalFilename = filename\<rparr>\<rparr>
               else
                 postDownloadCleanup filename
                   (triggerFileDownload buf filename
                      (setReceiverState R_complete
                         (updateReceiverStatus (msgArchiveVerified filename) False s5)))))"
proof -
  from assms obtain totalChunks dataSize archiveName chunkArray where
    e: "expectedTotalChunks s = Some totalChunks" "expectedDataSize s = Some dataSize"
      "expectedArchiveName s = Some archiveName"
    and c: "receivedChunkCount s = totalChunks"
    and a: "assembleChunks (receivedChunksMap s) [1..totalChunks] [] = Inr chunkArray"
    and b: "base64ToArrayBuffer env (concat chunkArray) = buf" "int (length buf) = dataSize"
    by (auto simp: bufferToVerify_def Let_def split: option.splits sum.splits if_splits)
  have z: "(buf = [] \<and> 0 < dataSize) = False" using b(2) by auto
  show ?thesis
    unfolding verifyAndDownload_def Let_def e
    by (simp add: c a b z)
qed

lemma examplePartial_more:
  "expectedDataSize examplePartial = Some 20"
  "expectedArchiveName examplePartial = Some ''transfer_archive.zip''"
  "expectedOriginalFilename examplePartial = None"
  "downloads examplePartial = []"
proof -
  have h: "expectedDataSize exampleHandshaken = Some 20"
    "expectedArchiveName exampleHandshaken = Some ''transfer_archive.zip''"
    "expectedOriginalFilename exampleHandshaken = None"
    "downloads exampleHandshaken = []"
    by (simp_all add: exampleHandshaken_def receiver_defs MULTI_FILE_ARCHIVE_NAME_def)
  show "expectedDataSize examplePartial = Some 20"
    "expectedArchiveName examplePartial = Some ''transfer_archive.zip''"
    "expectedOriginalFilename examplePartial = None"
    "downloads examplePartial = []"
    by (simp_all add: examplePartial_def deliver_def receiverRun_def handleScanResult_def
        processDataChunk_def addReceivedChunk_def updateReceiverStatus_def setReceiverState_def
        dataPacket_def exampleChunk_def acceptsScans_def structureOk_def mapHas_def
        PROTOCOL_VERSION_def Let_def exampleHandshaken_fields h)
qed

lemma exampleComplete_fields:
  "receiverState exampleComplete = R_waiting_final"
  "isScanning exampleComplete" "qrScanner exampleComplete"
  "expectedFileId exampleComplete = Some ''fid_1''"
  "expectedTotalChunks exampleComplete = Some 5"
  "expectedDataSize exampleComplete = Some 20"
  "expectedArchiveName exampleComplete = Some ''transfer_archive.zip''"
  "expectedOriginalFilename exampleComplete = None"
  "receivedChunksMap exampleComplete
     = [(5, ''QUJD''), (1, ''QUJD''), (3, ''QUJD''), (2, ''QUJD''), (4, ''QUJD'')]"
  "receivedChunkCount exampleComplete = 5"
  "downloads exampleComplete = []"
  by (simp_all add: exampleComplete_def deliver_def receiverRun_def handleScanResult_def
      processDataChunk_def addReceivedChunk_def updateReceiverStatus_def setReceiverState_def
      dataPacket_def exampleChunk_def acceptsScans_def structureOk_def mapHas_def
      PROTOCOL_VERSION_def Let_def examplePartial_fields examplePartial_more)

lemma exampleComplete_buffer:
  "bufferToVerify exampleBrowser exampleComplete
     = Some (map (\<lambda>c. of_nat (of_char c)) ''QUJDQUJDQUJDQUJDQUJD'')"
proof -
  have "[1..5::int] = [1, 2, 3, 4, 5]" by (simp add: upto.simps)
  then show ?thesis
    by (simp add: bufferToVerify_def exampleComplete_fields mapGet_def base64ToArrayBuffer_def
        exampleBrowser_def)
qed

text \<open>
  Claim C6. \<^verbatim>\<open>calculateChecksum\<close> returns, for every buffer, the four lowercase
  hexadecimal digits of the byte sum modulo 65536, left-padded with zeros. When
  \<^verbatim>\<open>verifyAndDownload\<close> reaches the comparison with the buffer it assembled, a \<^verbatim>\<open>chk\<close>
  field that is not exactly that string ends the transfer: the state is \<^verbatim>\<open>error\<close>, the
  mismatch is reported, nothing is downloaded or scheduled, and every later scan result is
  ignored. A \<^verbatim>\<open>chk\<close> field equal to it leads to the download, or to the extraction of the
  single file.
\<close>

theorem checksum_exact_match:
  "calculateChecksum buffer = hex4 (sum_list (map unat buffer) mod 65536)
   \<and> length (calculateChecksum buffer) = 4
   \<and> list_all isLowerHex (calculateChecksum buffer)
   \<and> (bufferToVerify env s = Some buf \<and> p_chk p \<noteq> JString (calculateChecksum buf) \<longrightarrow>
         receiverState (verifyAndDownload env p s) = R_error
         \<and> receiverStatus (verifyAndDownload env p s) = ''Error: '' @ msgChecksumMismatch
         \<and> receiverStatusIsError (verifyAndDownload env p s)
         \<and> downloads (verifyAndDownload env p s) = downloads s
         \<and> pendingExtraction (verifyAndDownload env p s) = pendingExtraction s
         \<and> cleanupTimer (verifyAndDownload env p s) = cleanupTimer s
         \<and> (\<forall>r. handleScanResult env r (verifyAndDownload env p s)
                  = verifyAndDownload env p s))
   \<and> (bufferToVerify env s = Some buf \<and> p_chk p = JString (calculateChecksum buf) \<longrightarrow>
         \<not> receiverStatusIsError (verifyAndDownload env p s)
         \<and> (expectedOriginalFilename s = None \<or> expectedOriginalFilename s = Some [] \<longrightarrow>
               receiverState (verifyAndDownload env p s) = R_complete
               \<and> (\<exists>filename. downloads (verifyAndDownload env p s)
                                  = downloads s @ [(buf, filename)]))
         \<and> (expectedOriginalFilename s \<noteq> None \<and> expectedOriginalFilename s \<noteq> Some [] \<longrightarrow>
               (\<exists>ex. pendingExtraction (verifyAndDownload env p s) = Some ex
                      \<and> receivedZipBuffer ex = buf)
               \<and> downloads (verifyAndDownload env p s) = downloads s))"
proof -
  have c: "calculateChecksum b = hex4 (sum_list (map unat b) mod 65536)" for b
    by (rule calculateChecksum_hex4)
  have shape: "length (calculateChecksum buffer) = 4 \<and> list_all isLowerHex (calculateChecksum buffer)"
    unfolding c by (rule hex4_shape)
  have bad: "receiverState (verifyAndDownload env p s) = R_error
         \<and> receiverStatus (verifyAndDownload env p s) = ''Error: '' @ msgChecksumMismatch
         \<and> receiverStatusIsError (verifyAndDownload env p s)
         \<and> downloads (verifyAndDownload env p s) = downloads s
         \<and> pendingExtraction (verifyAndDownload env p s) = pendingExtraction s
         \<and> cleanupTimer (verifyAndDownload env p s) = cleanupTimer s
         \<and> (\<forall>r. handleScanResult env r (verifyAndDownload env p s)
                  = verifyAndDownload env p s)"
    if b: "bufferToVerify env s = Some buf" and m: "p_chk p \<noteq> JString (calculateChecksum buf)"
  proof -
    have m': "JString (calculateChecksum buf) \<noteq> p_chk p" using m by auto
    have st: "receiverState (verifyAndDownload env p s) = R_error"
      unfolding verifyAndDownload_compare[OF b] Let_def using m'
      by (simp add: receiver_fields)
    have "receiverStatus (verifyAndDownload env p s) = ''Error: '' @ msgChecksumMismatch
         \<and> receiverStatusIsError (verifyAndDownload env p s)
         \<and> downloads (verifyAndDownload env p s) = downloads s
         \<and> pendingExtraction (verifyAndDownload env p s) = pendingExtraction s
         \<and> cleanupTimer (verifyAndDownload env p s) = cleanupTimer s"
      unfolding verifyAndDownload_compare[OF b] Let_def using m'
      by (simp add: receiver_fields)
    moreover have "\<forall>r. handleScanResult env r (verifyAndDownload env p s)
                  = verifyAndDownload env p s"
      using st by (simp add: handleScanResult_ignored acceptsScans_def)
    ultimately show ?thesis using st by blast
  qed
  have good: "\<not> receiverStatusIsError (verifyAndDownload env p s)
         \<and> (expectedOriginalFilename s = None \<or> expectedOriginalFilename s = Some [] \<longrightarrow>
               receiverState (verifyAndDownload env p s) = R_complete
               \<and> (\<exists>filename. downloads (verifyAndDownload env p s)
                                  = downloads s @ [(buf, filename)]))
         \<and> (expectedOriginalFilename s \<noteq> None \<and> expectedOriginalFilename s \<noteq> Some [] \<longrightarrow>
               (\<exists>ex. pendingExtraction (verifyAndDownload env p s) = Some ex
                      \<and> receivedZipBuffer ex = buf)
               \<and> downloads (verifyAndDownload env p s) = downloads s)"
    if b: "bufferToVerify env s = Some buf" and m: "p_chk p = JString (calculateChecksum buf)"
  proof (cases "expectedOriginalFilename s = None \<or> expectedOriginalFilename s = Some []")
    case True
    then have o: "(case expectedOriginalFilename s of None \<Rightarrow> [] | Some n \<Rightarrow> n) = []"
      by auto
    have "\<not> receiverStatusIsError (verifyAndDownload env p s)
        \<and> receiverState (verifyAndDownload env p s) = R_complete
        \<and> (\<exists>filename. downloads (verifyAndDownload env p s) = downloads s @ [(buf, filename)])"
      unfolding verifyAndDownload_compare[OF b] Let_def o using m
      by (simp add: receiver_fields triggerFileDownload_def postDownloadCleanup_def
          updateReceiverStatus_def setReceiverState_def)
    then show ?thesis using True by auto
  next
    case False
    then have o: "(case expectedOriginalFilename s of None \<Rightarrow> [] | Some n \<Rightarrow> n) \<noteq> []"
      by (auto split: option.splits)
    have "\<not> receiverStatusIsError (verifyAndDownload env p s)
        \<and> (\<exists>ex. pendingExtraction (verifyAndDownload env p s) = Some ex
                      \<and> receivedZipBuffer ex = buf)
        \<and> downloads (verifyAndDownload env p s) = downloads s"
      unfolding verifyAndDownload_compare[OF b] Let_def using m o
      by (simp add: receiver_fields updateReceiverStatus_def)
    then show ?thesis using False by auto
  qed
  show ?thesis using c[of buffer] shape bad good by blast
qed

text \<open>The completed example session: its buffer has the checksum \<^verbatim>\<open>0604\<close>; the Final
  packet with \<^verbatim>\<open>0514\<close> fails, the one with \<^verbatim>\<open>0604\<close> completes.\<close>

theorem checksum_exact_match_witness:
  "bufferToVerify exampleBrowser exampleComplete
     = Some (map (\<lambda>c. of_nat (of_char c)) ''QUJDQUJDQUJDQUJDQUJD'')
   \<and> calculateChecksum (map (\<lambda>c. of_nat (of_char c)) ''QUJDQUJDQUJDQUJDQUJD'') = ''0604''
   \<and> p_chk (finalPacket ''fid_1'' ''0514'') \<noteq> JString ''0604''
   \<and> receiverState (verifyAndDownload exampleBrowser (finalPacket ''fid_1'' ''0514'')
         exampleComplete) = R_error
   \<and> downloads (verifyAndDownload exampleBrowser (finalPacket ''fid_1'' ''0514'')
         exampleComplete) = []
   \<and> p_chk (finalPacket ''fid_1'' ''0604'') = JString ''0604''
   \<and> receiverState (verifyAndDownload exampleBrowser (finalPacket ''fid_1'' ''0604'')
         exampleComplete) = R_complete"
proof -
  let ?buf = "map (\<lambda>c. of_nat (of_char c)) ''QUJDQUJDQUJDQUJDQUJD'' :: byte list"
  have s: "sum_list (map unat ?buf) = 1540" by simp
  have d: "hex4 1540 = ''0604''" by (simp add: hex4_def digitChar_def)
  note t = checksum_exact_match[of ?buf exampleBrowser exampleComplete ?buf]
  have k: "calculateChecksum ?buf = ''0604''"
    using t[of "finalPacket ''fid_1'' ''0514''"] unfolding s using d by simp
  have b: "bufferToVerify exampleBrowser exampleComplete = Some ?buf"
    by (rule exampleComplete_buffer)
  have c1: "p_chk (finalPacket ''fid_1'' ''0514'') \<noteq> JString (calculateChecksum ?buf)"
    and c2: "p_chk (finalPacket ''fid_1'' ''0604'') = JString (calculateChecksum ?buf)"
    unfolding k by (simp_all add: finalPacket_def)
  have o: "expectedOriginalFilename exampleComplete = None"
    and w: "downloads exampleComplete = []"
    by (simp_all add: exampleComplete_fields)
  have e1: "receiverState (verifyAndDownload exampleBrowser (finalPacket ''fid_1'' ''0514'')
              exampleComplete) = R_error
       \<and> downloads (verifyAndDownload exampleBrowser (finalPacket ''fid_1'' ''0514'')
              exampleComplete) = downloads exampleComplete"
    using t[of "finalPacket ''fid_1'' ''0514''"] b c1 by simp
  have e2: "receiverState (verifyAndDownload exampleBrowser (finalPacket ''fid_1'' ''0604'')
              exampleComplete) = R_complete"
    using t[of "finalPacket ''fid_1'' ''0604''"] b c2 o by simp
  show ?thesis
    using b k c1 c2 e1 e2 w by simp
qed

subsection \<open>A payload over the capacity estimate\<close>













lemma capacity_H: "getQrCapacityEstimate ''H'' = 800"
  by (simp add: getQrCapacityEstimate_def QR_CAPACITY_ESTIMATES_def)



subsection \<open>The specific resend\<close>

lemma parseChunkInput_331:
  assumes "3 \<le> maxChunk"
  shows "parseChunkInput ''3,3,1'' maxChunk = Some [1, 3]"
proof -
  have t: "trim ''3,3,1'' = ''3,3,1''" "trim ''3'' = ''3''" "trim ''1'' = ''1''"
    by (simp_all add: trim_def isJsSpace_def)
  have s: "splitOn CHR '','' ''3,3,1'' = [''3'', ''3'', ''1'']" by simp
  have d: "allDigits ''3''" "allDigits ''1''" "parseInt ''3'' = 3" "parseInt ''1'' = 1"
    by (simp_all add: allDigits_def isDigit_def parseInt_def)
  have "parseParts [''3'', ''3'', ''1''] maxChunk [] = Some [3, 1]"
    using assms by (simp add: t d setAdd_def Let_def)
  then show ?thesis using assms by (simp add: parseChunkInput_def t s)
qed

text \<open>One step of \<^verbatim>\<open>displaySpecificChunk\<close> that emits the chunk at the current position of
  the list.\<close>

lemma displaySpecificChunk_emits:
  assumes "senderTransferPhase x = S_sending_specific"
    and "specificChunkSendIndex x < length (specificChunksToSend x)"
    and "specificChunksToSend x ! specificChunkSendIndex x = n"
    and "1 \<le> n" and "n \<le> int (length (chunks x))"
    and "dataToSendBuffer x \<noteq> None"
    and "10 * int (length (dataPayloadString (transferFileId x) n (chunks x ! nat (n - 1))))
           \<le> 11 * getQrCapacityEstimate (errorCorrectionLevelSelect x)"
  shows "displayedPayloads (displaySpecificChunk x)
           = displayedPayloads x
               @ [dataPayloadString (transferFileId x) n (chunks x ! nat (n - 1))]"
    and "specificChunkSendIndex (displaySpecificChunk x) = specificChunkSendIndex x + 1"
    and "senderTransferPhase (displaySpecificChunk x) = S_sending_specific"
    and "transferTimer (displaySpecificChunk x)
           = (if isCurrentSequenceManual x then transferTimer x
              else if specificChunkSendIndex x + 1 < length (specificChunksToSend x)
                then Some CbDisplaySpecificChunk else Some CbDisplayFinalConfirmationQR)"
    and "specificChunksToSend (displaySpecificChunk x) = specificChunksToSend x"
    and "isCurrentSequenceManual (displaySpecificChunk x) = isCurrentSequenceManual x"
    and "chunks (displaySpecificChunk x) = chunks x"
    and "dataToSendBuffer (displaySpecificChunk x) = dataToSendBuffer x"
    and "transferFileId (displaySpecificChunk x) = transferFileId x"
    and "dataToSendChecksum (displaySpecificChunk x) = dataToSendChecksum x"
    and "currentChunkIndex (displaySpecificChunk x) = currentChunkIndex x"
    and "totalDataChunks (displaySpecificChunk x) = totalDataChunks x"
    and "errorCorrectionLevelSelect (displaySpecificChunk x) = errorCorrectionLevelSelect x"
proof -
  have c: "length (chunks x) \<noteq> 0" using assms(4,5) by auto
  have i: "\<not> (n - 1 < 0 \<or> n - 1 \<ge> int (length (chunks x)))" using assms(4,5) by auto
  have e: "\<not> exceedsCapacity (dataPayloadString (transferFileId x) n (chunks x ! nat (n - 1)))
             (getQrCapacityEstimate (errorCorrectionLevelSelect x))"
    using assms(7) by (simp add: exceedsCapacity_def)
  let ?p = "dataPayloadString (transferFileId x) n (chunks x ! nat (n - 1))"
  let ?m = "msgResendingChunk (showInt n) (showNat (specificChunkSendIndex x + 1))
              (showInt (totalStepsInCurrentSequence x))"
  have d: "displaySpecificChunk x
      = scheduleNextSpecificChunk
          (setSpecificChunkSendIndex (specificChunkSendIndex x + 1)
             (generateOrUpdateQrCode ?p (updateSenderStatus ?m False x)))"
    using assms(1,2,3,6) c i e
    by (auto simp: displaySpecificChunk_def Let_def)
  show "displayedPayloads (displaySpecificChunk x) = displayedPayloads x @ [?p]"
    and "specificChunkSendIndex (displaySpecificChunk x) = specificChunkSendIndex x + 1"
    and "senderTransferPhase (displaySpecificChunk x) = S_sending_specific"
    and "transferTimer (displaySpecificChunk x)
           = (if isCurrentSequenceManual x then transferTimer x
              else if specificChunkSendIndex x + 1 < length (specificChunksToSend x)
                then Some CbDisplaySpecificChunk else Some CbDisplayFinalConfirmationQR)"
    and "specificChunksToSend (displaySpecificChunk x) = specificChunksToSend x"
    and "isCurrentSequenceManual (displaySpecificChunk x) = isCurrentSequenceManual x"
    and "chunks (displaySpecificChunk x) = chunks x"
    and "dataToSendBuffer (displaySpecificChunk x) = dataToSendBuffer x"
    and "transferFileId (displaySpecificChunk x) = transferFileId x"
    and "dataToSendChecksum (displaySpecificChunk x) = dataToSendChecksum x"
    and "currentChunkIndex (displaySpecificChunk x) = currentChunkIndex x"
    and "totalDataChunks (displaySpecificChunk x) = totalDataChunks x"
    and "errorCorrectionLevelSelect (displaySpecificChunk x) = errorCorrectionLevelSelect x"
    unfolding d using assms(1)
    by (simp_all add: scheduleNextSpecificChunk_def setSpecificChunkSendIndex_def
        generateOrUpdateQrCode_def updateSenderStatus_def setTransferTimer_def Let_def)
qed

text \<open>\<^verbatim>\<open>displayFinalConfirmationQR\<close> with a payload that fits.\<close>

lemma displayFinalConfirmationQR_emits:
  assumes "dataToSendBuffer x \<noteq> None" and "dataToSendChecksum x \<noteq> []"
    and "10 * int (length (finalPayloadString (transferFileId x) (dataToSendChecksum x)))
           \<le> 11 * getQrCapacityEstimate (errorCorrectionLevelSelect x)"
  shows "displayedPayloads (displayFinalConfirmationQR x)
           = displayedPayloads x @ [finalPayloadString (transferFileId x) (dataToSendChecksum x)]"
    and "senderTransferPhase (displayFinalConfirmationQR x) = S_final_qr_displayed"
    and "transferTimer (displayFinalConfirmationQR x)
           = (if isCurrentSequenceManual x then transferTimer x
              else Some CbHandlePostFinalState)"
    and "isCurrentSequenceManual (displayFinalConfirmationQR x) = isCurrentSequenceManual x"
    and "currentChunkIndex (displayFinalConfirmationQR x) = currentChunkIndex x"
    and "totalDataChunks (displayFinalConfirmationQR x) = totalDataChunks x"
proof -
  have e: "\<not> exceedsCapacity (finalPayloadString (transferFileId x) (dataToSendChecksum x))
             (getQrCapacityEstimate (errorCorrectionLevelSelect x))"
    using assms(3) by (simp add: exceedsCapacity_def)
  show "displayedPayloads (displayFinalConfirmationQR x)
           = displayedPayloads x @ [finalPayloadString (transferFileId x) (dataToSendChecksum x)]"
    and "senderTransferPhase (displayFinalConfirmationQR x) = S_final_qr_displayed"
    and "transferTimer (displayFinalConfirmationQR x)
           = (if isCurrentSequenceManual x then transferTimer x
              else Some CbHandlePostFinalState)"
    and "isCurrentSequenceManual (displayFinalConfirmationQR x) = isCurrentSequenceManual x"
    and "currentChunkIndex (displayFinalConfirmationQR x) = currentChunkIndex x"
    and "totalDataChunks (displayFinalConfirmationQR x) = totalDataChunks x"
    using assms(1,2) e
    by (auto simp: displayFinalConfirmationQR_def generateOrUpdateQrCode_def
        updateSenderStatus_def setSenderPhase_def setTransferTimer_def Let_def)
qed

lemma handlePostFinalState_fields:
  assumes "senderTransferPhase x = S_final_qr_displayed"
  shows "senderTransferPhase (handlePostFinalState x) = S_post_final"
    and "transferTimer (handlePostFinalState x) = None"
    and "displayedPayloads (handlePostFinalState x) = displayedPayloads x"
    and "\<not> isCurrentSequenceManual (handlePostFinalState x)"
  using assms
  by (simp_all add: handlePostFinalState_def setTransferTimer_def setSenderPhase_def
      updateSenderStatus_def Let_def)

text \<open>How \<^verbatim>\<open>advance\<close> resolves in the two modes.\<close>

lemma advance_manual_specific:
  "isCurrentSequenceManual y \<Longrightarrow> senderTransferPhase y = S_sending_specific \<Longrightarrow>
   advance y = displaySpecificChunk y"
  by (simp add: advance_def nextChunkBtnClick_def)

lemma advance_manual_final:
  "isCurrentSequenceManual y \<Longrightarrow> senderTransferPhase y = S_final_qr_displayed \<Longrightarrow>
   currentChunkIndex y > totalDataChunks y \<Longrightarrow> advance y = handlePostFinalState y"
  by (simp add: advance_def nextChunkBtnClick_def)

lemma advance_auto:
  "\<not> isCurrentSequenceManual y \<Longrightarrow> transferTimer y = Some cb \<Longrightarrow>
   advance y =
     (case cb of
        CbDisplayNextChunk \<Rightarrow> displayNextChunk (y\<lparr>transferTimer := None\<rparr>)
      | CbHandlePostFinalState \<Rightarrow> handlePostFinalState (y\<lparr>transferTimer := None\<rparr>)
      | CbDisplaySpecificChunk \<Rightarrow> displaySpecificChunk (y\<lparr>transferTimer := None\<rparr>)
      | CbDisplayFinalConfirmationQR \<Rightarrow>
          displayFinalConfirmationQR (y\<lparr>transferTimer := None\<rparr>))"
  by (simp add: advance_def timerFired_def Let_def)

lemma displaySpecificChunk_done:
  "senderTransferPhase y = S_sending_specific \<Longrightarrow>
   specificChunkSendIndex y \<ge> length (specificChunksToSend y) \<Longrightarrow>
   displaySpecificChunk y
     = displayFinalConfirmationQR (updateSenderStatus msgSpecificComplete False y)"
  by (simp add: displaySpecificChunk_def)

text \<open>The sequence from the state in which \<^verbatim>\<open>handleSendSpecific\<close> calls
  \<^verbatim>\<open>displaySpecificChunk\<close> for the list \<open>[1, 3]\<close>.\<close>

lemma specific_sequence_from:
  assumes ph: "senderTransferPhase x = S_sending_specific"
    and li: "specificChunksToSend x = [1, 3]" and ix: "specificChunkSendIndex x = 0"
    and ti: "transferTimer x = None"
    and bu: "dataToSendBuffer x \<noteq> None" and ck: "dataToSendChecksum x \<noteq> []"
    and le: "3 \<le> length (chunks x)"
    and cu: "currentChunkIndex x > totalDataChunks x"
    and c1: "10 * int (length (dataPayloadString (transferFileId x) 1 (chunks x ! 0)))
               \<le> 11 * getQrCapacityEstimate (errorCorrectionLevelSelect x)"
    and c3: "10 * int (length (dataPayloadString (transferFileId x) 3 (chunks x ! 2)))
               \<le> 11 * getQrCapacityEstimate (errorCorrectionLevelSelect x)"
    and cf: "10 * int (length (finalPayloadString (transferFileId x) (dataToSendChecksum x)))
               \<le> 11 * getQrCapacityEstimate (errorCorrectionLevelSelect x)"
  shows "displayedPayloads (displaySpecificChunk x)
           = displayedPayloads x @ [dataPayloadString (transferFileId x) 1 (chunks x ! 0)]
       \<and> senderTransferPhase (displaySpecificChunk x) = S_sending_specific
       \<and> transferTimer (displaySpecificChunk x)
           = (if isCurrentSequenceManual x then None else Some CbDisplaySpecificChunk)"
    and "displayedPayloads (advance (displaySpecificChunk x))
           = displayedPayloads x
               @ [dataPayloadString (transferFileId x) 1 (chunks x ! 0),
                  dataPayloadString (transferFileId x) 3 (chunks x ! 2)]
       \<and> senderTransferPhase (advance (displaySpecificChunk x)) = S_sending_specific
       \<and> transferTimer (advance (displaySpecificChunk x))
           = (if isCurrentSequenceManual x then None else Some CbDisplayFinalConfirmationQR)
       \<and> isCurrentSequenceManual (advance (displaySpecificChunk x)) = isCurrentSequenceManual x"
    and "displayedPayloads (advance (advance (displaySpecificChunk x)))
           = displayedPayloads x
               @ [dataPayloadString (transferFileId x) 1 (chunks x ! 0),
                  dataPayloadString (transferFileId x) 3 (chunks x ! 2),
                  finalPayloadString (transferFileId x) (dataToSendChecksum x)]
       \<and> senderTransferPhase (advance (advance (displaySpecificChunk x))) = S_final_qr_displayed
       \<and> transferTimer (advance (advance (displaySpecificChunk x)))
           = (if isCurrentSequenceManual x then None else Some CbHandlePostFinalState)"
    and "displayedPayloads (advance (advance (advance (displaySpecificChunk x))))
           = displayedPayloads (advance (advance (displaySpecificChunk x)))
       \<and> senderTransferPhase (advance (advance (advance (displaySpecificChunk x)))) = S_post_final
       \<and> transferTimer (advance (advance (advance (displaySpecificChunk x)))) = None
       \<and> \<not> isCurrentSequenceManual (advance (advance (advance (displaySpecificChunk x))))"
proof -
  let ?d1 = "dataPayloadString (transferFileId x) 1 (chunks x ! 0)"
  let ?d3 = "dataPayloadString (transferFileId x) 3 (chunks x ! 2)"
  let ?f = "finalPayloadString (transferFileId x) (dataToSendChecksum x)"
  let ?man = "isCurrentSequenceManual x"
  define r0 where "r0 = displaySpecificChunk x"
  define r1 where "r1 = advance r0"
  define r2 where "r2 = advance r1"
  define r3 where "r3 = advance r2"
  note e0 = displaySpecificChunk_emits[of x 1, folded r0_def]
  have a0: "displayedPayloads r0 = displayedPayloads x @ [?d1]"
    "specificChunkSendIndex r0 = 1" "senderTransferPhase r0 = S_sending_specific"
    "transferTimer r0 = (if ?man then None else Some CbDisplaySpecificChunk)"
    "specificChunksToSend r0 = [1, 3]" "isCurrentSequenceManual r0 = ?man"
    "chunks r0 = chunks x" "dataToSendBuffer r0 = dataToSendBuffer x"
    "transferFileId r0 = transferFileId x" "dataToSendChecksum r0 = dataToSendChecksum x"
    "currentChunkIndex r0 = currentChunkIndex x" "totalDataChunks r0 = totalDataChunks x"
    "errorCorrectionLevelSelect r0 = errorCorrectionLevelSelect x"
    using e0 ph li ix ti bu le c1 by simp_all
  define y0 where "y0 = (if ?man then r0 else r0\<lparr>transferTimer := None\<rparr>)"
  have s1: "r1 = displaySpecificChunk y0"
  proof (cases ?man)
    case True
    then show ?thesis
      unfolding r1_def y0_def using advance_manual_specific[of r0] by (simp add: a0)
  next
    case False
    then show ?thesis
      unfolding r1_def y0_def using advance_auto[of r0 CbDisplaySpecificChunk] by (simp add: a0)
  qed
  have b0: "displayedPayloads y0 = displayedPayloads x @ [?d1]"
    "specificChunkSendIndex y0 = 1" "senderTransferPhase y0 = S_sending_specific"
    "transferTimer y0 = None"
    "specificChunksToSend y0 = [1, 3]" "isCurrentSequenceManual y0 = ?man"
    "chunks y0 = chunks x" "dataToSendBuffer y0 = dataToSendBuffer x"
    "transferFileId y0 = transferFileId x" "dataToSendChecksum y0 = dataToSendChecksum x"
    "currentChunkIndex y0 = currentChunkIndex x" "totalDataChunks y0 = totalDataChunks x"
    "errorCorrectionLevelSelect y0 = errorCorrectionLevelSelect x"
    unfolding y0_def by (simp_all add: a0)
  note e1 = displaySpecificChunk_emits[of y0 3, folded s1]
  have a1: "displayedPayloads r1 = displayedPayloads x @ [?d1, ?d3]"
    "specificChunkSendIndex r1 = 2" "senderTransferPhase r1 = S_sending_specific"
    "transferTimer r1 = (if ?man then None else Some CbDisplayFinalConfirmationQR)"
    "specificChunksToSend r1 = [1, 3]" "isCurrentSequenceManual r1 = ?man"
    "chunks r1 = chunks x" "dataToSendBuffer r1 = dataToSendBuffer x"
    "transferFileId r1 = transferFileId x" "dataToSendChecksum r1 = dataToSendChecksum x"
    "currentChunkIndex r1 = currentChunkIndex x" "totalDataChunks r1 = totalDataChunks x"
    "errorCorrectionLevelSelect r1 = errorCorrectionLevelSelect x"
    using e1 b0 bu le c3 by simp_all
  define y1 where "y1 = (if ?man then updateSenderStatus msgSpecificComplete False r1
                         else r1\<lparr>transferTimer := None\<rparr>)"
  have s2: "r2 = displayFinalConfirmationQR y1"
  proof (cases ?man)
    case True
    then have "r2 = displaySpecificChunk r1"
      unfolding r2_def using advance_manual_specific[of r1] by (simp add: a1)
    also have "\<dots> = displayFinalConfirmationQR (updateSenderStatus msgSpecificComplete False r1)"
      by (rule displaySpecificChunk_done) (simp_all add: a1)
    finally show ?thesis using True by (simp add: y1_def)
  next
    case False
    then show ?thesis
      unfolding r2_def y1_def using advance_auto[of r1 CbDisplayFinalConfirmationQR]
      by (simp add: a1)
  qed
  have b1: "displayedPayloads y1 = displayedPayloads x @ [?d1, ?d3]"
    "transferTimer y1 = None" "isCurrentSequenceManual y1 = ?man"
    "dataToSendBuffer y1 = dataToSendBuffer x"
    "transferFileId y1 = transferFileId x" "dataToSendChecksum y1 = dataToSendChecksum x"
    "currentChunkIndex y1 = currentChunkIndex x" "totalDataChunks y1 = totalDataChunks x"
    "errorCorrectionLevelSelect y1 = errorCorrectionLevelSelect x"
    unfolding y1_def by (simp_all add: a1 updateSenderStatus_def)
  note e2 = displayFinalConfirmationQR_emits[of y1, folded s2]
  have a2: "displayedPayloads r2 = displayedPayloads x @ [?d1, ?d3, ?f]"
    "senderTransferPhase r2 = S_final_qr_displayed"
    "transferTimer r2 = (if ?man then None else Some CbHandlePostFinalState)"
    "isCurrentSequenceManual r2 = ?man"
    "currentChunkIndex r2 = currentChunkIndex x" "totalDataChunks r2 = totalDataChunks x"
    using e2 b1 bu ck cf by simp_all
  define y2 where "y2 = (if ?man then r2 else r2\<lparr>transferTimer := None\<rparr>)"
  have s3: "r3 = handlePostFinalState y2"
  proof (cases ?man)
    case True
    then show ?thesis
      unfolding r3_def y2_def using advance_manual_final[of r2] cu by (simp add: a2)
  next
    case False
    then show ?thesis
      unfolding r3_def y2_def using advance_auto[of r2 CbHandlePostFinalState] by (simp add: a2)
  qed
  have b2: "senderTransferPhase y2 = S_final_qr_displayed"
    "displayedPayloads y2 = displayedPayloads r2"
    unfolding y2_def by (simp_all add: a2)
  note e3 = handlePostFinalState_fields[of y2, folded s3, OF b2(1)]
  have a3: "displayedPayloads r3 = displayedPayloads r2"
    "senderTransferPhase r3 = S_post_final" "transferTimer r3 = None"
    "\<not> isCurrentSequenceManual r3"
    using e3 b2 by simp_all
  show "displayedPayloads (displaySpecificChunk x) = displayedPayloads x @ [?d1]
       \<and> senderTransferPhase (displaySpecificChunk x) = S_sending_specific
       \<and> transferTimer (displaySpecificChunk x)
           = (if ?man then None else Some CbDisplaySpecificChunk)"
    using a0(1,3,4) unfolding r0_def by simp
  show "displayedPayloads (advance (displaySpecificChunk x)) = displayedPayloads x @ [?d1, ?d3]
       \<and> senderTransferPhase (advance (displaySpecificChunk x)) = S_sending_specific
       \<and> transferTimer (advance (displaySpecificChunk x))
           = (if ?man then None else Some CbDisplayFinalConfirmationQR)
       \<and> isCurrentSequenceManual (advance (displaySpecificChunk x)) = ?man"
    using a1(1,3,4,6) unfolding r1_def r0_def by simp
  show "displayedPayloads (advance (advance (displaySpecificChunk x)))
           = displayedPayloads x @ [?d1, ?d3, ?f]
       \<and> senderTransferPhase (advance (advance (displaySpecificChunk x))) = S_final_qr_displayed
       \<and> transferTimer (advance (advance (displaySpecificChunk x)))
           = (if ?man then None else Some CbHandlePostFinalState)"
    using a2(1,2,3) unfolding r2_def r1_def r0_def by simp
  show "displayedPayloads (advance (advance (advance (displaySpecificChunk x))))
           = displayedPayloads (advance (advance (displaySpecificChunk x)))
       \<and> senderTransferPhase (advance (advance (advance (displaySpecificChunk x)))) = S_post_final
       \<and> transferTimer (advance (advance (advance (displaySpecificChunk x)))) = None
       \<and> \<not> isCurrentSequenceManual (advance (advance (advance (displaySpecificChunk x))))"
    using a3 unfolding r3_def r2_def r1_def r0_def by simp
qed

text \<open>\<^verbatim>\<open>handleSendSpecific\<close> with the input \<^verbatim>\<open>3,3,1\<close>: the state in which it calls
  \<^verbatim>\<open>displaySpecificChunk\<close>.\<close>

lemma handleSendSpecific_starts:
  assumes "dataToSendBuffer s \<noteq> None"
    and "totalDataChunks s = int (length (chunks s))" and "3 \<le> totalDataChunks s"
    and "specificChunksInput s = ''3,3,1''"
  obtains x where "handleSendSpecific s = displaySpecificChunk x"
    and "senderTransferPhase x = S_sending_specific" and "specificChunksToSend x = [1, 3]"
    and "specificChunkSendIndex x = 0" and "transferTimer x = None"
    and "dataToSendBuffer x = dataToSendBuffer s"
    and "dataToSendChecksum x = dataToSendChecksum s"
    and "chunks x = chunks s" and "currentChunkIndex x = currentChunkIndex s"
    and "totalDataChunks x = totalDataChunks s" and "transferFileId x = transferFileId s"
    and "errorCorrectionLevelSelect x = errorCorrectionLevelSelect s"
    and "isCurrentSequenceManual x = resendManualModeCheckbox s"
    and "displayedPayloads x = displayedPayloads s"
proof -
  have p: "parseChunkInput (specificChunksInput s) (totalDataChunks s) = Some [1, 3]"
    unfolding assms(4) using assms(3) by (rule parseChunkInput_331)
  define x where "x =
    (updateSenderStatus (msgPreparingSpecific (showNat (length [1, 3 :: int]))) False
       ((setTotalStepsInCurrentSequence (int (length [1, 3 :: int]))
           (setSenderPhase S_sending_specific
              (setSpecificChunkSendIndex 0
                 (setSpecificChunksToSend [1, 3] (setTransferTimer None s)))))
          \<lparr>isCurrentSequenceManual := resendManualModeCheckbox s\<rparr>))
      \<lparr>sendSpecificStatus := msgSendingChunks (joinStr '', '' (map showInt [1, 3]))\<rparr>"
  have c: "length (chunks s) \<noteq> 0" using assms(2,3) by auto
  have h: "handleSendSpecific s = displaySpecificChunk x"
    using assms(1) c by (auto simp: handleSendSpecific_def p x_def Let_def)
  have f: "senderTransferPhase x = S_sending_specific" "specificChunksToSend x = [1, 3]"
    "specificChunkSendIndex x = 0" "transferTimer x = None"
    "dataToSendBuffer x = dataToSendBuffer s" "dataToSendChecksum x = dataToSendChecksum s"
    "chunks x = chunks s" "currentChunkIndex x = currentChunkIndex s"
    "totalDataChunks x = totalDataChunks s" "transferFileId x = transferFileId s"
    "errorCorrectionLevelSelect x = errorCorrectionLevelSelect s"
    "isCurrentSequenceManual x = resendManualModeCheckbox s"
    "displayedPayloads x = displayedPayloads s"
    by (simp_all add: x_def updateSenderStatus_def setTotalStepsInCurrentSequence_def
        setSenderPhase_def setSpecificChunkSendIndex_def setSpecificChunksToSend_def
        setTransferTimer_def)
  show thesis using that[OF h f] .
qed

text \<open>
  Claim C7, as the code has it. An archive of at least three chunks is loaded, the checksum
  is there, and the two data payloads and the final payload pass the capacity check of the
  selected level. With \<^verbatim>\<open>3,3,1\<close> in the input field, \<^verbatim>\<open>handleSendSpecific\<close> normalizes the
  request to the list \<open>[1, 3]\<close> and displays the Data packet of chunk 1; the next step
  displays the Data packet of chunk 3, the step after it the Final packet, and the last step
  returns to \<^verbatim>\<open>post_final\<close> with nothing more displayed. In automatic mode a step is the
  pending timer firing, and each step schedules the next one, so the Final packet and the
  return follow by themselves. In manual mode no timer is pending after any step: each
  further step, the Final packet and the return included, is one click on the Next button.
\<close>

theorem resend_specific_sequence:
  assumes "dataToSendBuffer s \<noteq> None" and "dataToSendChecksum s \<noteq> []"
    and "totalDataChunks s = int (length (chunks s))" and "3 \<le> totalDataChunks s"
    and "currentChunkIndex s > totalDataChunks s"
    and "specificChunksInput s = ''3,3,1''"
    and "errorCorrectionLevelSelect s \<in> set [''L'', ''M'', ''Q'', ''H'']"
    and "10 * int (length (dataPayloadString (transferFileId s) 1 (chunks s ! 0)))
           \<le> 11 * getQrCapacityEstimate (errorCorrectionLevelSelect s)"
    and "10 * int (length (dataPayloadString (transferFileId s) 3 (chunks s ! 2)))
           \<le> 11 * getQrCapacityEstimate (errorCorrectionLevelSelect s)"
    and "10 * int (length (finalPayloadString (transferFileId s) (dataToSendChecksum s)))
           \<le> 11 * getQrCapacityEstimate (errorCorrectionLevelSelect s)"
  shows "parseChunkInput (specificChunksInput s) (totalDataChunks s) = Some [1, 3]
       \<and> displayedPayloads (handleSendSpecific s)
           = displayedPayloads s @ [dataPayloadString (transferFileId s) 1 (chunks s ! 0)]
       \<and> senderTransferPhase (handleSendSpecific s) = S_sending_specific
       \<and> displayedPayloads (advance (handleSendSpecific s))
           = displayedPayloads s
               @ [dataPayloadString (transferFileId s) 1 (chunks s ! 0),
                  dataPayloadString (transferFileId s) 3 (chunks s ! 2)]
       \<and> senderTransferPhase (advance (handleSendSpecific s)) = S_sending_specific
       \<and> displayedPayloads (advance (advance (handleSendSpecific s)))
           = displayedPayloads s
               @ [dataPayloadString (transferFileId s) 1 (chunks s ! 0),
                  dataPayloadString (transferFileId s) 3 (chunks s ! 2),
                  finalPayloadString (transferFileId s) (dataToSendChecksum s)]
       \<and> senderTransferPhase (advance (advance (handleSendSpecific s))) = S_final_qr_displayed
       \<and> displayedPayloads (advance (advance (advance (handleSendSpecific s))))
           = displayedPayloads (advance (advance (handleSendSpecific s)))
       \<and> senderTransferPhase (advance (advance (advance (handleSendSpecific s)))) = S_post_final
       \<and> transferTimer (advance (advance (advance (handleSendSpecific s)))) = None
       \<and> transferTimer (handleSendSpecific s)
           = (if resendManualModeCheckbox s then None else Some CbDisplaySpecificChunk)
       \<and> transferTimer (advance (handleSendSpecific s))
           = (if resendManualModeCheckbox s then None else Some CbDisplayFinalConfirmationQR)
       \<and> transferTimer (advance (advance (handleSendSpecific s)))
           = (if resendManualModeCheckbox s then None else Some CbHandlePostFinalState)"
proof -
  have p: "parseChunkInput (specificChunksInput s) (totalDataChunks s) = Some [1, 3]"
    unfolding assms(6) using assms(4) by (rule parseChunkInput_331)
  obtain x where h: "handleSendSpecific s = displaySpecificChunk x"
    and f: "senderTransferPhase x = S_sending_specific" "specificChunksToSend x = [1, 3]"
      "specificChunkSendIndex x = 0" "transferTimer x = None"
      "dataToSendBuffer x = dataToSendBuffer s" "dataToSendChecksum x = dataToSendChecksum s"
      "chunks x = chunks s" "currentChunkIndex x = currentChunkIndex s"
      "totalDataChunks x = totalDataChunks s" "transferFileId x = transferFileId s"
      "errorCorrectionLevelSelect x = errorCorrectionLevelSelect s"
      "isCurrentSequenceManual x = resendManualModeCheckbox s"
      "displayedPayloads x = displayedPayloads s"
    using handleSendSpecific_starts[OF assms(1,3,4,6)] by blast
  have l: "3 \<le> length (chunks s)" using assms(3,4) by simp
  note q = specific_sequence_from[of x, folded h, unfolded f, OF refl refl refl refl assms(1,2)
      l assms(5) assms(8,9,10)]
  show ?thesis using p q by simp
qed

lemma jsonString_letters:
  "jsonString (replicate n CHR ''A'') = CHR 0x22 # replicate n CHR ''A'' @ [CHR 0x22]"
proof -
  have "concat (map jsonEscapeChar (replicate n CHR ''A'')) = replicate n CHR ''A''"
    by (induction n) (simp_all add: jsonEscapeChar_def)
  then show ?thesis by (simp add: jsonString_def)
qed

lemma examplePostFinal_lengths:
  "length (dataPayloadString ''fid_1'' 1 (replicate 100 CHR ''A'')) = 148"
  "length (dataPayloadString ''fid_1'' 3 (replicate 4 CHR ''A'')) = 52"
  "length (finalPayloadString ''fid_1'' ''0000'') = 44"
proof -
  have j: "length (jsonString ''fid_1'') = 7" "length (jsonString ''0000'') = 6"
    by (simp_all add: jsonString_def jsonEscapeChar_def)
  have d: "length (showInt PROTOCOL_VERSION) = 1" "length (showInt 1) = 1" "length (showInt 3) = 1"
    by (simp_all add: PROTOCOL_VERSION_def showInt_def)
  show "length (dataPayloadString ''fid_1'' 1 (replicate 100 CHR ''A'')) = 148"
    "length (dataPayloadString ''fid_1'' 3 (replicate 4 CHR ''A'')) = 52"
    "length (finalPayloadString ''fid_1'' ''0000'') = 44"
    by (simp_all add: dataPayloadString_def finalPayloadString_def j d jsonString_letters)
qed

lemma examplePostFinal_fields:
  "dataToSendBuffer (examplePostFinal manual) = Some (replicate 153 0)"
  "dataToSendChecksum (examplePostFinal manual) = ''0000''"
  "totalDataChunks (examplePostFinal manual) = 3"
  "currentChunkIndex (examplePostFinal manual) = 4"
  "specificChunksInput (examplePostFinal manual) = ''3,3,1''"
  "errorCorrectionLevelSelect (examplePostFinal manual) = ''H''"
  "transferFileId (examplePostFinal manual) = ''fid_1''"
  "chunks (examplePostFinal manual)
     = [replicate 100 CHR ''A'', replicate 100 CHR ''A'', replicate 4 CHR ''A'']"
  by (simp_all add: examplePostFinal_def)

text \<open>The example sender, in manual and in automatic mode: the two Data packets, the Final
  packet, and \<^verbatim>\<open>post_final\<close> again.\<close>

theorem resend_specific_sequence_witness:
  "(\<forall>manual.
      dataToSendBuffer (examplePostFinal manual) \<noteq> None
      \<and> totalDataChunks (examplePostFinal manual) = 3
      \<and> specificChunksInput (examplePostFinal manual) = ''3,3,1''
      \<and> parseChunkInput ''3,3,1'' 3 = Some [1, 3]
      \<and> displayedPayloads (advance (advance (advance (handleSendSpecific (examplePostFinal manual)))))
          = displayedPayloads (examplePostFinal manual)
              @ [dataPayloadString ''fid_1'' 1 (replicate 100 CHR ''A''),
                 dataPayloadString ''fid_1'' 3 (replicate 4 CHR ''A''),
                 finalPayloadString ''fid_1'' ''0000'']
      \<and> senderTransferPhase
            (advance (advance (advance (handleSendSpecific (examplePostFinal manual)))))
          = S_post_final)"
proof
  fix manual
  have c: "getQrCapacityEstimate ''H'' = 800" by (rule capacity_H)
  show "dataToSendBuffer (examplePostFinal manual) \<noteq> None
      \<and> totalDataChunks (examplePostFinal manual) = 3
      \<and> specificChunksInput (examplePostFinal manual) = ''3,3,1''
      \<and> parseChunkInput ''3,3,1'' 3 = Some [1, 3]
      \<and> displayedPayloads (advance (advance (advance (handleSendSpecific (examplePostFinal manual)))))
          = displayedPayloads (examplePostFinal manual)
              @ [dataPayloadString ''fid_1'' 1 (replicate 100 CHR ''A''),
                 dataPayloadString ''fid_1'' 3 (replicate 4 CHR ''A''),
                 finalPayloadString ''fid_1'' ''0000'']
      \<and> senderTransferPhase
            (advance (advance (advance (handleSendSpecific (examplePostFinal manual)))))
          = S_post_final"
    using resend_specific_sequence[of "examplePostFinal manual"]
    by (simp add: examplePostFinal_fields examplePostFinal_lengths c)
qed

text \<open>
  Against the claim as stated. The example sender in manual mode has displayed the two Data
  packets. No timer is pending, and the timer event changes nothing: the Final packet is not
  emitted by itself. It is displayed by the next click on the Next button.
\<close>

theorem resend_specific_manual_waits:
  "resendManualModeCheckbox (examplePostFinal True)
   \<and> displayedPayloads (advance (handleSendSpecific (examplePostFinal True)))
       = displayedPayloads (examplePostFinal True)
           @ [dataPayloadString ''fid_1'' 1 (replicate 100 CHR ''A''),
              dataPayloadString ''fid_1'' 3 (replicate 4 CHR ''A'')]
   \<and> senderTransferPhase (advance (handleSendSpecific (examplePostFinal True)))
       = S_sending_specific
   \<and> transferTimer (advance (handleSendSpecific (examplePostFinal True))) = None
   \<and> timerFired (advance (handleSendSpecific (examplePostFinal True)))
       = advance (handleSendSpecific (examplePostFinal True))
   \<and> displayedPayloads
         (nextChunkBtnClick (advance (handleSendSpecific (examplePostFinal True))))
       = displayedPayloads (examplePostFinal True)
           @ [dataPayloadString ''fid_1'' 1 (replicate 100 CHR ''A''),
              dataPayloadString ''fid_1'' 3 (replicate 4 CHR ''A''),
              finalPayloadString ''fid_1'' ''0000'']"
proof -
  let ?e = "examplePostFinal True"
  have m: "resendManualModeCheckbox ?e" by (simp add: examplePostFinal_def)
  have c: "getQrCapacityEstimate ''H'' = 800" by (rule capacity_H)
  obtain x where h: "handleSendSpecific ?e = displaySpecificChunk x"
    and f: "senderTransferPhase x = S_sending_specific" "specificChunksToSend x = [1, 3]"
      "specificChunkSendIndex x = 0" "transferTimer x = None"
      "dataToSendBuffer x = dataToSendBuffer ?e" "dataToSendChecksum x = dataToSendChecksum ?e"
      "chunks x = chunks ?e" "currentChunkIndex x = currentChunkIndex ?e"
      "totalDataChunks x = totalDataChunks ?e" "transferFileId x = transferFileId ?e"
      "errorCorrectionLevelSelect x = errorCorrectionLevelSelect ?e"
      "isCurrentSequenceManual x = resendManualModeCheckbox ?e"
      "displayedPayloads x = displayedPayloads ?e"
    using handleSendSpecific_starts[of ?e] by (auto simp: examplePostFinal_fields)
  note q = specific_sequence_from[of x, folded h]
  have pre: "senderTransferPhase x = S_sending_specific" "specificChunksToSend x = [1, 3]"
    "specificChunkSendIndex x = 0" "transferTimer x = None" "dataToSendBuffer x \<noteq> None"
    "dataToSendChecksum x \<noteq> []" "3 \<le> length (chunks x)"
    "currentChunkIndex x > totalDataChunks x"
    "10 * int (length (dataPayloadString (transferFileId x) 1 (chunks x ! 0)))
       \<le> 11 * getQrCapacityEstimate (errorCorrectionLevelSelect x)"
    "10 * int (length (dataPayloadString (transferFileId x) 3 (chunks x ! 2)))
       \<le> 11 * getQrCapacityEstimate (errorCorrectionLevelSelect x)"
    "10 * int (length (finalPayloadString (transferFileId x) (dataToSendChecksum x)))
       \<le> 11 * getQrCapacityEstimate (errorCorrectionLevelSelect x)"
    by (simp_all add: f examplePostFinal_fields examplePostFinal_lengths c)
  note r1 = q(2)[OF pre]
  note r2 = q(3)[OF pre]
  have man: "isCurrentSequenceManual (advance (handleSendSpecific ?e))"
    using r1 by (simp add: f m)
  have t: "transferTimer (advance (handleSendSpecific ?e)) = None"
    using r1 by (simp add: f m)
  have tf: "timerFired (advance (handleSendSpecific ?e)) = advance (handleSendSpecific ?e)"
    by (simp add: timerFired_def t)
  have nb: "nextChunkBtnClick (advance (handleSendSpecific ?e))
      = advance (advance (handleSendSpecific ?e))"
    using man by (simp add: advance_def[of "advance (handleSendSpecific ?e)"])
  show ?thesis
    unfolding nb tf using r1 r2 m t
    by (simp add: f examplePostFinal_fields)
qed

end
